theory Spec2Isabelle
  imports Complex_Main "HOL-Library.Sublist" "HOL-Library.Log_Nat"
begin

section \<open>JavaScript values\<close>

text \<open>
  A JavaScript number is a double (IEEE 754 binary64): a finite value, one of the two
  infinities, or NaN. A finite double is given by the rational it denotes; the sign of
  zero is not modelled. Sums and products are computed exactly and then rounded to the
  nearest double, a tie to the double with the even significand, as the language
  prescribes.
\<close>

datatype number = Fin rat | PInf | NInf | NaN

text \<open>The integer nearest to \<open>y\<close>, a tie to the even one.\<close>

definition rne :: "rat \<Rightarrow> int" where
  "rne y =
     (let f = \<lfloor>y\<rfloor>; r = y - of_int f
      in if r < 1 / 2 then f else if 1 / 2 < r then f + 1 else if even f then f else f + 1)"

text \<open>
  The exponent \<open>e\<close> of a positive \<open>x\<close>, with \<open>2 powi e \<le> x < 2 powi (e + 1)\<close>, from the
  bit lengths of numerator and denominator.
\<close>

definition binade :: "rat \<Rightarrow> int" where
  "binade x =
     (case quotient_of x of
        (n, d) \<Rightarrow> let k = bitlen n - bitlen d in if 2 powi k \<le> x then k else k - 1)"

text \<open>
  Rounding to double. The doubles with exponent \<open>e\<close> are the multiples of
  \<open>2 powi (e - 52)\<close>; below the exponent -1022 the spacing stays \<open>2 powi (- 1074)\<close>
  (the subnormal numbers). A result of magnitude \<open>2 ^ 1024\<close> or more is an infinity.
\<close>

definition round_double :: "rat \<Rightarrow> number" where
  "round_double x =
     (if x = 0 then Fin 0
      else
        let e = max (binade \<bar>x\<bar>) (- 1022);
            q = 2 powi (e - 52);
            r = of_int (rne (x / q)) * q
        in if 2 ^ 1024 \<le> \<bar>r\<bar> then (if 0 < x then PInf else NInf) else Fin r)"

text \<open>A decimal literal of the source, such as \<open>0.95\<close>, denotes the double nearest to it.\<close>

definition literal :: "rat \<Rightarrow> number" where
  "literal r = round_double r"

fun num_neg :: "number \<Rightarrow> number" where
  "num_neg (Fin a) = Fin (- a)"
| "num_neg PInf = NInf"
| "num_neg NInf = PInf"
| "num_neg NaN = NaN"

text \<open>\<open>a + b\<close>: the exact sum, rounded; opposite infinities give NaN.\<close>

fun num_add :: "number \<Rightarrow> number \<Rightarrow> number" where
  "num_add (Fin a) (Fin b) = round_double (a + b)"
| "num_add NaN _ = NaN"
| "num_add _ NaN = NaN"
| "num_add PInf NInf = NaN"
| "num_add NInf PInf = NaN"
| "num_add PInf _ = PInf"
| "num_add _ PInf = PInf"
| "num_add NInf _ = NInf"
| "num_add _ NInf = NInf"

definition num_sub :: "number \<Rightarrow> number \<Rightarrow> number" where
  "num_sub a b = num_add a (num_neg b)"

text \<open>\<open>a * b\<close>: the exact product, rounded; zero times an infinity gives NaN.\<close>

fun num_mul :: "number \<Rightarrow> number \<Rightarrow> number" where
  "num_mul (Fin a) (Fin b) = round_double (a * b)"
| "num_mul NaN _ = NaN"
| "num_mul _ NaN = NaN"
| "num_mul (Fin a) PInf = (if a = 0 then NaN else if 0 < a then PInf else NInf)"
| "num_mul (Fin a) NInf = (if a = 0 then NaN else if 0 < a then NInf else PInf)"
| "num_mul PInf (Fin b) = (if b = 0 then NaN else if 0 < b then PInf else NInf)"
| "num_mul NInf (Fin b) = (if b = 0 then NaN else if 0 < b then NInf else PInf)"
| "num_mul PInf PInf = PInf"
| "num_mul NInf NInf = PInf"
| "num_mul PInf NInf = NInf"
| "num_mul NInf PInf = NInf"

text \<open>\<open>a < b\<close>: every comparison with NaN is false.\<close>

fun num_lt :: "number \<Rightarrow> number \<Rightarrow> bool" where
  "num_lt (Fin a) (Fin b) = (a < b)"
| "num_lt NaN _ = False"
| "num_lt _ NaN = False"
| "num_lt _ NInf = False"
| "num_lt NInf _ = True"
| "num_lt PInf _ = False"
| "num_lt _ PInf = True"

definition num_gt :: "number \<Rightarrow> number \<Rightarrow> bool" where
  "num_gt a b = num_lt b a"

text \<open>\<open>a >= b\<close>: false when either side is NaN.\<close>

definition num_ge :: "number \<Rightarrow> number \<Rightarrow> bool" where
  "num_ge a b = (a \<noteq> NaN \<and> b \<noteq> NaN \<and> \<not> num_lt a b)"

fun Math_abs :: "number \<Rightarrow> number" where
  "Math_abs (Fin a) = Fin \<bar>a\<bar>"
| "Math_abs PInf = PInf"
| "Math_abs NInf = PInf"
| "Math_abs NaN = NaN"

text \<open>
  \<open>Math.round\<close> rounds to the nearest integer, a tie towards plus infinity. The nearest
  integer of a double is a double, so nothing is rounded a second time.
\<close>

fun Math_round :: "number \<Rightarrow> number" where
  "Math_round (Fin a) = Fin (of_int \<lfloor>a + 1 / 2\<rfloor>)"
| "Math_round PInf = PInf"
| "Math_round NInf = NInf"
| "Math_round NaN = NaN"

text \<open>\<open>Math.max\<close> of two arguments: NaN when either is NaN.\<close>

definition Math_max :: "number \<Rightarrow> number \<Rightarrow> number" where
  "Math_max a b = (if a = NaN \<or> b = NaN then NaN else if num_lt a b then b else a)"

definition isNaN :: "number \<Rightarrow> bool" where
  "isNaN n = (n = NaN)"

text \<open>
  A string is a sequence of UTF-16 code units. \<open>js\<close> turns a literal of the source,
  written in ASCII, into its code units.
\<close>

type_synonym code_unit = nat

type_synonym jstring = "code_unit list"

fun js :: "string \<Rightarrow> jstring" where
  "js [] = []"
| "js (c # cs) = of_char c # js cs"

text \<open>
  A value of the language, as far as this program meets one: what \<open>JSON.parse\<close> and the
  store hand over, and \<open>undefined\<close>. An object is the list of its own properties.
\<close>

datatype jsval =
    Undefined
  | Null
  | Bool bool
  | Num number
  | Str jstring
  | Arr "jsval list"
  | Obj "(jstring \<times> jsval) list"

text \<open>\<open>typeof v === 'number'\<close>\<close>

fun is_number :: "jsval \<Rightarrow> bool" where
  "is_number (Num n) = True"
| "is_number _ = False"

text \<open>Truthiness, as \<open>if (v)\<close>, \<open>v || d\<close> and \<open>v && w\<close> read it.\<close>

fun truthy :: "jsval \<Rightarrow> bool" where
  "truthy Undefined = False"
| "truthy Null = False"
| "truthy (Bool b) = b"
| "truthy (Num n) = (n \<noteq> Fin 0 \<and> n \<noteq> NaN)"
| "truthy (Str s) = (s \<noteq> [])"
| "truthy (Arr xs) = True"
| "truthy (Obj kvs) = True"

section \<open>The stabilization block of \<open>checkAndRunUpdate\<close>\<close>

text \<open>
  \<^verbatim>\<open>let incomingTotal = typeof data.total === 'number' ? data.total : 0;\<close>
\<close>

fun incomingTotal :: "jsval \<Rightarrow> number" where
  "incomingTotal (Num n) = n"
| "incomingTotal _ = Fin 0"

text \<open>
  \<^verbatim>\<open>
  let stabilizedTotal = incomingTotal;
  if (totalActive > 0) {
     if (incomingTotal < totalActive) {
        stabilizedTotal = Math.max(incomingTotal, Math.round(totalActive * 0.95));
     } else {
        stabilizedTotal = Math.round(totalActive * 0.9 + incomingTotal * 0.1);
     }
  } else if (incomingTotal > 0) {
     stabilizedTotal = incomingTotal;
  }
  \<close>
  The first argument is the accepted total the closure holds, the second the incoming one.
\<close>

definition stabilizedTotal :: "number \<Rightarrow> number \<Rightarrow> number" where
  "stabilizedTotal totalActive incoming =
     (if num_gt totalActive (Fin 0) then
        (if num_lt incoming totalActive
         then Math_max incoming (Math_round (num_mul totalActive (literal (95 / 100))))
         else Math_round (num_add (num_mul totalActive (literal (9 / 10)))
                                  (num_mul incoming (literal (1 / 10)))))
      else if num_gt incoming (Fin 0) then incoming
      else incoming)"

section \<open>Errors, property access and strings\<close>

text \<open>A thrown value: every one this program meets is an \<open>Error\<close> with a message.\<close>

datatype js_error = Error (message: jstring)

text \<open>
  \<open>try { body } catch (e) { handler }\<close>: the body either completes with a value or
  throws.
\<close>

definition try_catch :: "js_error + 'a \<Rightarrow> (js_error \<Rightarrow> js_error + 'a) \<Rightarrow> js_error + 'a" where
  "try_catch body handler = (case body of Inl e \<Rightarrow> handler e | Inr v \<Rightarrow> Inr v)"

text \<open>
  \<open>v.k\<close> for the property names this program reads (\<open>candidates\<close>, \<open>content\<close>,
  \<open>parts\<close>, \<open>text\<close>, \<open>total\<close>, \<open>trend\<close>, \<open>headlines\<close>): reading a property of
  \<open>null\<close> or \<open>undefined\<close> throws a TypeError; numbers, booleans, strings and arrays
  have no property of these names. The keys of an object are distinct, as the parser
  leaves them. The wording of a TypeError's message is the engine's; the model fixes one.
\<close>

fun get_prop :: "jsval \<Rightarrow> jstring \<Rightarrow> js_error + jsval" where
  "get_prop Undefined k = Inl (Error (js ''TypeError: cannot read '' @ k @ js '' of undefined''))"
| "get_prop Null k = Inl (Error (js ''TypeError: cannot read '' @ k @ js '' of null''))"
| "get_prop (Obj kvs) k = Inr (case map_of kvs k of None \<Rightarrow> Undefined | Some v \<Rightarrow> v)"
| "get_prop _ k = Inr Undefined"

text \<open>\<open>v?.k\<close>: \<open>undefined\<close> when \<open>v\<close> is \<open>null\<close> or \<open>undefined\<close>, else \<open>v.k\<close>.\<close>

fun opt_prop :: "jsval \<Rightarrow> jstring \<Rightarrow> jsval" where
  "opt_prop (Obj kvs) k = (case map_of kvs k of None \<Rightarrow> Undefined | Some v \<Rightarrow> v)"
| "opt_prop _ k = Undefined"

text \<open>\<open>v?.[0]\<close>: the first element of an array, the first code unit of a string.\<close>

fun opt_first :: "jsval \<Rightarrow> jsval" where
  "opt_first (Arr (x # xs)) = x"
| "opt_first (Str (c # cs)) = Str [c]"
| "opt_first (Obj kvs) = (case map_of kvs (js ''0'') of None \<Rightarrow> Undefined | Some v \<Rightarrow> v)"
| "opt_first _ = Undefined"

text \<open>The decimal digits of a number, as a template literal prints it.\<close>

fun show_nat :: "nat \<Rightarrow> jstring" where
  "show_nat n =
     (if n < 10 then [48 + n]
      else show_nat (n div 10) @ [48 + n mod 10])"

declare show_nat.simps [simp del]

text \<open>
  \<open>s.replace(/pat/g, '')\<close> for a literal pattern: every match is removed, scanning from
  the left, matches not overlapping.
\<close>

function remove_all :: "jstring \<Rightarrow> jstring \<Rightarrow> jstring" where
  "remove_all pat [] = []"
| "remove_all pat (c # cs) =
     (if pat \<noteq> [] \<and> prefix pat (c # cs)
      then remove_all pat (drop (length pat) (c # cs))
      else c # remove_all pat cs)"
  by pat_completeness auto
termination
  by (relation "measure (\<lambda>(pat, s). length s)") auto

text \<open>
  \<open>s.trim()\<close> removes white space and line terminators at both ends: tab, line feed,
  vertical tab, form feed, carriage return, space, U+00A0, U+1680, U+2000 to U+200A,
  U+2028, U+2029, U+202F, U+205F, U+3000 and U+FEFF.
\<close>

definition is_space :: "code_unit \<Rightarrow> bool" where
  "is_space c =
     (c \<in> {0x9, 0xA, 0xB, 0xC, 0xD, 0x20, 0xA0, 0x1680, 0x2028, 0x2029, 0x202F, 0x205F,
            0x3000, 0xFEFF} \<or> (0x2000 \<le> c \<and> c \<le> 0x200A))"

definition trim :: "jstring \<Rightarrow> jstring" where
  "trim s = rev (dropWhile is_space (rev (dropWhile is_space s)))"

section \<open>The estimate source: \<open>callGemini\<close>\<close>

text \<open>What \<open>fetch\<close> resolved to: \<open>response.ok\<close>, \<open>response.status\<close> and the body's text.\<close>

record response =
  ok :: bool
  status :: nat
  body :: jstring

definition fence_json :: jstring where
  "fence_json = replicate 3 0x60 @ js ''json''"

definition fence :: jstring where
  "fence = replicate 3 0x60"

text \<open>
  \<^verbatim>\<open>
  async function callGemini(prompt, systemInstruction = "", useSearch = false) {
    ...
    try {
      const response = await fetch(url, {...});
      if (!response.ok) {
         const errorText = await response.text();
         throw new Error(`HTTP ${response.status}: ${errorText}`);
      }
      const data = await response.json();
      let text = data.candidates?.[0]?.content?.parts?.[0]?.text || "{}";
      if (useSearch) {
        text = text.replace(/```json/g, '').replace(/```/g, '').trim();
      }
      return text;
    } catch (error) {
      console.error("Gemini API Error:", error);
      throw error;
    }
  }
  \<close>
  The request goes to the network and what comes back does not depend on the model of
  this program, so the outcome of \<open>fetch\<close> is an argument: \<open>Inl e\<close> when it rejects.
  \<open>JSON_parse\<close> is the platform's parser, \<open>None\<close> where it throws a SyntaxError;
  \<open>response.json()\<close> parses the body with it. A text that is not a string has no
  \<open>replace\<close> method, and calling it throws. The console is not modelled.
\<close>

definition callGemini ::
  "(jsval \<Rightarrow> jsval option) \<Rightarrow> js_error + response \<Rightarrow> bool \<Rightarrow> js_error + jsval" where
  "callGemini JSON_parse fetched useSearch =
     (case fetched of
        Inl e \<Rightarrow> Inl e
      | Inr response \<Rightarrow>
          if \<not> ok response
          then Inl (Error (js ''HTTP '' @ show_nat (status response) @ js '': '' @ body response))
          else
            (case JSON_parse (Str (body response)) of
               None \<Rightarrow> Inl (Error (js ''SyntaxError: the body is not JSON''))
             | Some data \<Rightarrow>
                 (case get_prop data (js ''candidates'') of
                    Inl e \<Rightarrow> Inl e
                  | Inr candidates \<Rightarrow>
                      let found = opt_prop (opt_first (opt_prop (opt_prop
                                    (opt_first candidates) (js ''content'')) (js ''parts'')))
                                    (js ''text'');
                          text = (if truthy found then found else Str (js ''{}''))
                      in if useSearch
                         then (case text of
                                 Str t \<Rightarrow> Inr (Str (trim (remove_all fence (remove_all fence_json t))))
                               | _ \<Rightarrow> Inl (Error (js ''TypeError: text.replace is not a function'')))
                         else Inr text)))"

section \<open>The shared store and the view state\<close>

text \<open>
  The document \<open>current_status\<close> of the store. \<open>total\<close>, \<open>trend\<close> and \<open>headlines\<close> hold
  whatever value a writer stored (\<open>Undefined\<close> for a field that is absent); \<open>timestamp\<close>
  is epoch milliseconds, \<open>None\<close> when absent.
\<close>

record snapshot_doc =
  doc_total :: jsval
  doc_trend :: jsval
  doc_headlines :: jsval
  doc_timestamp :: "number option"
  doc_updatedBy :: jstring

text \<open>
  The state of the component \<open>App\<close> (its \<open>useState\<close> cells) together with the two module
  variables the effects read. \<open>db\<close> is \<open>None\<close> when no store is configured (local mode),
  else it holds the document, \<open>None\<close> while the document does not exist. \<open>lastUpdated\<close>
  is \<open>null\<close> or a \<open>Date\<close>, given by its time value (NaN for an invalid date).
  \<open>sourceCalls\<close> is not a variable of the program: it counts the requests sent to the
  estimate source.
\<close>

record app =
  totalActive :: number
  displayNumber :: number
  trend :: jsval
  headlines :: jsval
  lastUpdated :: "number option"
  apiStatus :: string
  errorDetails :: jstring
  user :: "jstring option"
  db :: "snapshot_doc option option"
  sourceCalls :: nat

text \<open>
  \<open>new Date(n)\<close> for a number: the time value is \<open>n\<close> truncated towards zero, NaN when
  \<open>n\<close> is not finite or beyond 8.64e15 milliseconds.
\<close>

fun new_Date :: "number \<Rightarrow> number" where
  "new_Date (Fin a) =
     (if \<bar>a\<bar> > 8640000000000000 then NaN
      else Fin (of_int (if 0 \<le> a then \<lfloor>a\<rfloor> else \<lceil>a\<rceil>)))"
| "new_Date _ = NaN"

text \<open>\<open>typeof v === 'number' && !isNaN(v) ? v : 0\<close>\<close>

definition number_or_zero :: "jsval \<Rightarrow> number" where
  "number_or_zero v = (case v of Num n \<Rightarrow> if \<not> isNaN n then n else Fin 0 | _ \<Rightarrow> Fin 0)"

fun is_array :: "jsval \<Rightarrow> bool" where
  "is_array (Arr xs) = True"
| "is_array _ = False"

text \<open>
  \<^verbatim>\<open>
  onSnapshot(docRef, (docSnap) => {
    if (docSnap.exists()) {
      const data = docSnap.data();
      const validTotal = typeof data.total === 'number' && !isNaN(data.total) ? data.total : 0;
      setTotalActive(validTotal);
      setTrend(data.trend || 'stable');
      if (data.headlines && Array.isArray(data.headlines)) setHeadlines(data.headlines);
      if (data.timestamp) setLastUpdated(new Date(data.timestamp));
      setApiStatus('success');
    } else {
      setLastUpdated(new Date(0));
    }
  }, ...)
  \<close>
\<close>

definition validTotal :: "jsval \<Rightarrow> number" where
  "validTotal v = number_or_zero v"

definition onSnapshot :: "snapshot_doc option \<Rightarrow> app \<Rightarrow> app" where
  "onSnapshot docSnap s =
     (case docSnap of
        Some data \<Rightarrow>
          s\<lparr> totalActive := validTotal (doc_total data),
             trend := (if truthy (doc_trend data) then doc_trend data else Str (js ''stable'')),
             headlines := (if truthy (doc_headlines data) \<and> is_array (doc_headlines data)
                           then doc_headlines data else headlines s),
             lastUpdated := (case doc_timestamp data of
                               Some t \<Rightarrow> if truthy (Num t) then Some (new_Date t) else lastUpdated s
                             | None \<Rightarrow> lastUpdated s),
             apiStatus := ''success'' \<rparr>
      | None \<Rightarrow> s\<lparr> lastUpdated := Some (new_Date (Fin 0)) \<rparr>)"

text \<open>
  The store pushes the current document to the subscriber; the subscription exists
  only when a store is configured and the user is signed in.
\<close>

definition deliver :: "app \<Rightarrow> app" where
  "deliver s =
     (case db s of
        None \<Rightarrow> s
      | Some docSnap \<Rightarrow> (case user s of None \<Rightarrow> s | Some u \<Rightarrow> onSnapshot docSnap s))"

section \<open>The refresh scheduler: \<open>checkAndRunUpdate\<close>\<close>

text \<open>
  What one tick meets outside the program: the clock at the start (\<open>new Date()\<close>), the
  outcome of \<open>fetch\<close>, the clock when the result is stored (\<open>new Date()\<close>,
  \<open>Date.now()\<close>), and the error \<open>setDoc\<close> rejects with, if it does.
\<close>

record tick =
  now :: int
  fetched :: "js_error + response"
  now_stored :: int
  setDoc_error :: "js_error option"

definition stalenessThreshold :: number where
  "stalenessThreshold = Fin (60 * 1000)"

definition needsUpdate :: "int \<Rightarrow> number option \<Rightarrow> bool" where
  "needsUpdate now_ms lastUpdated_v =
     (case lastUpdated_v of
        None \<Rightarrow> True
      | Some t \<Rightarrow> num_gt (num_sub (Fin (of_int now_ms)) t) stalenessThreshold)"

definition isLocalMode :: "app \<Rightarrow> bool" where
  "isLocalMode s = (db s = None)"

text \<open>
  The body of the \<open>try\<close> block, lines 215 to 255, run on the state \<open>s\<close> in which the
  status is already \<open>loading\<close>. \<open>Inl e\<close>: the block throws \<open>e\<close>. The \<open>return\<close> after a
  failed \<open>JSON.parse\<close> leaves the function with the state as it is.
\<close>

definition updateSequence :: "(jsval \<Rightarrow> jsval option) \<Rightarrow> tick \<Rightarrow> app \<Rightarrow> js_error + app" where
  "updateSequence JSON_parse env s =
     (case callGemini JSON_parse (fetched env) True of
        Inl e \<Rightarrow> Inl e
      | Inr jsonStr \<Rightarrow>
          (case JSON_parse jsonStr of
             None \<Rightarrow> Inr s
           | Some data \<Rightarrow>
               (case get_prop data (js ''total'') of
                  Inl e \<Rightarrow> Inl e
                | Inr data_total \<Rightarrow>
                    let stabilized = stabilizedTotal (totalActive s) (incomingTotal data_total);
                        data_trend = opt_prop data (js ''trend'');
                        data_headlines = opt_prop data (js ''headlines'')
                    in if isLocalMode s
                       then Inr (s\<lparr> totalActive := stabilized,
                                     trend := (if truthy data_trend then data_trend else trend s),
                                     headlines := (if truthy data_headlines then data_headlines
                                                   else headlines s),
                                     lastUpdated := Some (Fin (of_int (now_stored env))),
                                     apiStatus := ''success'' \<rparr>)
                       else
                         (case user s of
                            None \<Rightarrow> Inl (Error (js ''TypeError: cannot read uid of null''))
                          | Some uid \<Rightarrow>
                              (case setDoc_error env of
                                 Some e \<Rightarrow> Inl e
                               | None \<Rightarrow>
                                   Inr (s\<lparr> db := Some (Some
                                          \<lparr> doc_total = Num stabilized,
                                            doc_trend = data_trend,
                                            doc_headlines = data_headlines,
                                            doc_timestamp = Some (Fin (of_int (now_stored env))),
                                            doc_updatedBy = uid \<rparr>) \<rparr>))))))"

text \<open>
  \<^verbatim>\<open>
  const checkAndRunUpdate = async () => {
    const now = new Date();
    const stalenessThreshold = 60 * 1000;
    const needsUpdate = !lastUpdated || (now - lastUpdated > stalenessThreshold);
    const isLocalMode = !db;
    if (needsUpdate || isLocalMode) {
      if (!isLocalMode && !user) return;
      setApiStatus('loading');
      try { ... }
      catch (e) {
        console.error("Update Sequence Failed:", e);
        setApiStatus('error');
        setErrorDetails(e.message);
      }
    }
  };
  \<close>
  The result is \<open>Inl e\<close> if the function throws. The first thing the \<open>try\<close> block does
  is the request to the estimate source, counted in \<open>sourceCalls\<close>.
\<close>

definition checkAndRunUpdate :: "(jsval \<Rightarrow> jsval option) \<Rightarrow> tick \<Rightarrow> app \<Rightarrow> js_error + app" where
  "checkAndRunUpdate JSON_parse env s =
     (if needsUpdate (now env) (lastUpdated s) \<or> isLocalMode s then
        (if \<not> isLocalMode s \<and> user s = None then Inr s
         else
           let loading = s\<lparr> apiStatus := ''loading'', sourceCalls := sourceCalls s + 1 \<rparr>
           in try_catch (updateSequence JSON_parse env loading)
                (\<lambda>e. Inr (loading\<lparr> apiStatus := ''error'', errorDetails := message e \<rparr>)))
      else Inr s)"

text \<open>
  \<open>setInterval(checkAndRunUpdate, 10000)\<close>: one tick after the other, each on the state
  the one before left. A tick that threw would end the run with its error.
\<close>

fun run_ticks :: "(jsval \<Rightarrow> jsval option) \<Rightarrow> tick list \<Rightarrow> app \<Rightarrow> js_error + app" where
  "run_ticks JSON_parse [] s = Inr s"
| "run_ticks JSON_parse (env # envs) s =
     (case checkAndRunUpdate JSON_parse env s of
        Inl e \<Rightarrow> Inl e
      | Inr s' \<Rightarrow> run_ticks JSON_parse envs s')"

section \<open>The display animator: \<open>animate\<close>\<close>

text \<open>
  The updater \<open>animate\<close> hands to \<open>setDisplayNumber\<close>:
  \<^verbatim>\<open>
  prev => {
    const target = typeof totalActive === 'number' && !isNaN(totalActive) ? totalActive : 0;
    const current = typeof prev === 'number' && !isNaN(prev) ? prev : 0;
    const diff = target - current;
    if (Math.abs(diff) < 1) return target;
    return current + diff * 0.05;
  }
  \<close>
\<close>

definition animate_updater :: "jsval \<Rightarrow> jsval \<Rightarrow> number" where
  "animate_updater totalActive_v prev =
     (let target = number_or_zero totalActive_v;
          current = number_or_zero prev;
          diff = num_sub target current
      in if num_lt (Math_abs diff) (Fin 1) then target
         else num_add current (num_mul diff (literal (5 / 100))))"

text \<open>
  \<open>animate\<close> applies the updater to the displayed number. The effect runs it again
  after every change of the displayed number, and a frame it requests only runs it
  once more, so the displayed numbers are the iterates of the updater; the request of
  the frame itself is not modelled.
\<close>

definition animate :: "app \<Rightarrow> app" where
  "animate s = s\<lparr> displayNumber := animate_updater (Num (totalActive s)) (Num (displayNumber s)) \<rparr>"

fun frames :: "nat \<Rightarrow> jsval \<Rightarrow> number \<Rightarrow> number" where
  "frames 0 target_v shown = shown"
| "frames (Suc n) target_v shown = frames n target_v (animate_updater target_v (Num shown))"

section \<open>Example inputs\<close>

text \<open>
  Replies of the estimate source, for the concrete runs below. \<open>reply_body t\<close> is the
  body of a reply whose first candidate carries the text \<open>t\<close>, and \<open>reply_value t\<close>
  is what the platform's parser makes of that body.
\<close>

definition json_escape :: "jstring \<Rightarrow> jstring" where
  "json_escape t = concat (map (\<lambda>c. if c = 0x22 then [0x5C, c] else [c]) t)"

definition reply_body :: "jstring \<Rightarrow> jstring" where
  \<open>reply_body t =
     js ''{"candidates":[{"content":{"parts":[{"text":"'' @ json_escape t @ js ''"}]}}]}''\<close>

definition reply_value :: "jstring \<Rightarrow> jsval" where
  "reply_value t =
     Obj [(js ''candidates'',
           Arr [Obj [(js ''content'',
                      Obj [(js ''parts'', Arr [Obj [(js ''text'', Str t)]])])]])]"

definition payload_5000 :: jstring where
  \<open>payload_5000 = js ''{"total": 5000, "trend": "up", "headlines": ["A"]}''\<close>

definition payload_negative :: jstring where
  \<open>payload_negative = js ''{"total": -5, "trend": "down", "headlines": ["B"]}''\<close>

text \<open>A number too large for a double: \<open>JSON.parse\<close> reads it as \<open>Infinity\<close>.\<close>

definition payload_overflow :: jstring where
  \<open>payload_overflow = js ''{"total": 1e999, "trend": "up", "headlines": ["C"]}''\<close>

definition payload_malformed :: jstring where
  "payload_malformed = js ''no reports found''"

text \<open>
  The platform's \<open>JSON.parse\<close> on the texts above, and a SyntaxError on any other
  text.
\<close>

definition example_parse :: "jsval \<Rightarrow> jsval option" where
  "example_parse v =
     (if v = Str payload_5000
      then Some (Obj [(js ''total'', Num (Fin 5000)), (js ''trend'', Str (js ''up'')),
                      (js ''headlines'', Arr [Str (js ''A'')])])
      else if v = Str payload_negative
      then Some (Obj [(js ''total'', Num (Fin (- 5))), (js ''trend'', Str (js ''down'')),
                      (js ''headlines'', Arr [Str (js ''B'')])])
      else if v = Str payload_overflow
      then Some (Obj [(js ''total'', Num PInf), (js ''trend'', Str (js ''up'')),
                      (js ''headlines'', Arr [Str (js ''C'')])])
      else if v = Str (reply_body payload_5000) then Some (reply_value payload_5000)
      else if v = Str (reply_body payload_negative) then Some (reply_value payload_negative)
      else if v = Str (reply_body payload_overflow) then Some (reply_value payload_overflow)
      else if v = Str (reply_body payload_malformed) then Some (reply_value payload_malformed)
      else None)"

definition reply_ok :: "jstring \<Rightarrow> js_error + response" where
  "reply_ok t = Inr \<lparr> ok = True, status = 200, body = reply_body t \<rparr>"

definition reply_unavailable :: "js_error + response" where
  "reply_unavailable = Inr \<lparr> ok = False, status = 503, body = js ''quota exceeded'' \<rparr>"

text \<open>
  A client in local mode and one in shared mode, signed in, each holding the accepted
  total 1000 from a snapshot taken at time 0.
\<close>

definition local_client :: app where
  "local_client =
     \<lparr> totalActive = Fin 1000, displayNumber = Fin 1000, trend = Str (js ''up''),
       headlines = Arr [Str (js ''A'')], lastUpdated = Some (Fin 0), apiStatus = ''success'',
       errorDetails = [], user = None, db = None, sourceCalls = 0 \<rparr>"


text \<open>The state of a client that has just started in local mode: the initial cells.\<close>

definition fresh_local_client :: app where
  "fresh_local_client =
     \<lparr> totalActive = Fin 0, displayNumber = Fin 0, trend = Str (js ''stable''),
       headlines = Arr [Str (js ''...'')], lastUpdated = None, apiStatus = ''idle'',
       errorDetails = [], user = None, db = None, sourceCalls = 0 \<rparr>"

text \<open>A client that has just started in shared mode, signed in; the document does not exist.\<close>

definition fresh_shared_client :: app where
  "fresh_shared_client =
     \<lparr> totalActive = Fin 0, displayNumber = Fin 0, trend = Str (js ''stable''),
       headlines = Arr [Str (js ''...'')], lastUpdated = None, apiStatus = ''idle'',
       errorDetails = [], user = Some (js ''uid-1''), db = Some None, sourceCalls = 0 \<rparr>"

definition tick_at :: "int \<Rightarrow> js_error + response \<Rightarrow> tick" where
  "tick_at t reply = \<lparr> now = t, fetched = reply, now_stored = t + 2000, setDoc_error = None \<rparr>"

section \<open>Rounding to double\<close>

lemma rne_floor: "rne y = \<lfloor>y\<rfloor> \<or> rne y = \<lfloor>y\<rfloor> + 1"
  by (simp add: rne_def Let_def)

lemma rne_error: "\<bar>of_int (rne y) - y\<bar> \<le> 1 / 2"
proof -
  have "of_int \<lfloor>y\<rfloor> \<le> y" "y < of_int \<lfloor>y\<rfloor> + 1" by linarith+
  then show ?thesis
    by (auto simp: rne_def Let_def abs_le_iff)
qed

lemma rne_of_int: "rne (of_int k) = k"
  by (simp add: rne_def)

lemma rne_ge: "of_int k \<le> y \<Longrightarrow> k \<le> rne y"
proof -
  assume "of_int k \<le> y"
  then have "k \<le> \<lfloor>y\<rfloor>" by (simp add: le_floor_iff)
  with rne_floor [of y] show ?thesis by linarith
qed

lemma rne_le: "y \<le> of_int k \<Longrightarrow> rne y \<le> k"
proof (cases "y = of_int k")
  case True
  then show ?thesis by (simp add: rne_of_int)
next
  case False
  assume "y \<le> of_int k"
  with False have "y < of_int k" by simp
  then have "\<lfloor>y\<rfloor> < k" by (simp add: floor_less_iff)
  with rne_floor [of y] show ?thesis by linarith
qed

lemma two_powi_pos: "(0 :: rat) < 2 powi k"
  by (simp add: zero_less_power_int)

lemma two_powi_less: "(2 :: rat) powi a < 2 powi b \<longleftrightarrow> a < b"
proof
  assume l: "(2 :: rat) powi a < 2 powi b"
  show "a < b"
  proof (rule ccontr)
    assume "\<not> a < b"
    then have "(2 :: rat) powi b \<le> 2 powi a"
      by (intro power_int_increasing) simp_all
    with l show False by simp
  qed
next
  assume "a < b"
  then show "(2 :: rat) powi a < 2 powi b"
    by (intro power_int_strict_increasing) simp_all
qed

lemma two_powi_le: "(2 :: rat) powi a \<le> 2 powi b \<longleftrightarrow> a \<le> b"
  using two_powi_less [of b a] by (simp add: not_less [symmetric])

lemma binade_bounds:
  assumes "0 < x"
  shows "2 powi binade x \<le> x" and "x < 2 powi (binade x + 1)"
proof -
  obtain n d where q: "quotient_of x = (n, d)" by (cases "quotient_of x")
  then have d: "0 < d" and x: "x = of_int n / of_int d"
    by (simp_all add: quotient_of_denom_pos quotient_of_div)
  from assms d x have n: "0 < n"
    by (simp add: zero_less_divide_iff)
  define k where "k = bitlen n - bitlen d"
  have bn: "1 \<le> bitlen n" "1 \<le> bitlen d"
    using n d by (simp_all add: bitlen_alt_def)
  from bitlen_bounds [OF n] have "(2 :: int) ^ nat (bitlen n - 1) \<le> n" "n < 2 ^ nat (bitlen n)"
    by simp_all
  then have "(of_int ((2 :: int) ^ nat (bitlen n - 1)) :: rat) \<le> of_int n"
    "(of_int n :: rat) < of_int (2 ^ nat (bitlen n))"
    by (simp_all only: of_int_le_iff of_int_less_iff)
  then have n1: "(2 :: rat) powi (bitlen n - 1) \<le> of_int n" and n2: "(of_int n :: rat) < 2 powi bitlen n"
    using bn by (simp_all add: power_int_nonneg_exp)
  from bitlen_bounds [OF d] have "(2 :: int) ^ nat (bitlen d - 1) \<le> d" "d < 2 ^ nat (bitlen d)"
    by simp_all
  then have "(of_int ((2 :: int) ^ nat (bitlen d - 1)) :: rat) \<le> of_int d"
    "(of_int d :: rat) < of_int (2 ^ nat (bitlen d))"
    by (simp_all only: of_int_le_iff of_int_less_iff)
  then have d1: "(2 :: rat) powi (bitlen d - 1) \<le> of_int d" and d2: "(of_int d :: rat) < 2 powi bitlen d"
    using bn by (simp_all add: power_int_nonneg_exp)
  have dpos: "(0 :: rat) < of_int d" using d by simp
  have npos: "(0 :: rat) < of_int n" using n by simp
  have "x * 2 powi (bitlen d - 1) \<le> x * of_int d"
    using assms d1 by (intro mult_left_mono) simp_all
  also have "\<dots> = of_int n" using dpos x by simp
  also have "\<dots> < 2 powi bitlen n" by (rule n2)
  finally have "x * 2 powi (bitlen d - 1) < 2 powi bitlen n" .
  then have "x < 2 powi bitlen n / 2 powi (bitlen d - 1)"
    by (simp add: pos_less_divide_eq two_powi_pos)
  also have "\<dots> = 2 powi (k + 1)"
    by (simp add: k_def power_int_diff [symmetric] algebra_simps)
  finally have up: "x < 2 powi (k + 1)" .
  have "2 powi (bitlen n - 1) \<le> (of_int n :: rat)" by (rule n1)
  also have "\<dots> = x * of_int d" using dpos x by simp
  also have "\<dots> \<le> x * 2 powi bitlen d"
    using assms d2 by (intro mult_left_mono) simp_all
  finally have "2 powi (bitlen n - 1) / 2 powi bitlen d \<le> x"
    by (simp add: pos_divide_le_eq two_powi_pos)
  moreover have "(2 :: rat) powi (bitlen n - 1) / 2 powi bitlen d = 2 powi (k - 1)"
    by (simp add: k_def power_int_diff [symmetric] algebra_simps)
  ultimately have lo: "2 powi (k - 1) \<le> x" by simp
  have b: "binade x = (if 2 powi k \<le> x then k else k - 1)"
    by (simp add: binade_def q k_def Let_def)
  show "2 powi binade x \<le> x"
    using lo by (simp add: b)
  show "x < 2 powi (binade x + 1)"
    using up by (auto simp: b not_le)
qed

lemma binade_less: "0 < x \<Longrightarrow> x < 2 powi j \<Longrightarrow> binade x < j"
proof -
  assume "0 < x" "x < 2 powi j"
  with binade_bounds(1) [of x] have "(2 :: rat) powi binade x < 2 powi j" by simp
  then show ?thesis by (simp only: two_powi_less)
qed

lemma binade_ge: "2 powi j \<le> x \<Longrightarrow> j \<le> binade x"
proof -
  assume a: "2 powi j \<le> x"
  have "(0 :: rat) < 2 powi j" by (rule two_powi_pos)
  from this a have "0 < x" by (rule less_le_trans)
  with binade_bounds(2) [of x] a have "(2 :: rat) powi j < 2 powi (binade x + 1)" by simp
  then show ?thesis by (simp only: two_powi_less)
qed

lemma round_double_quantum:
  assumes "x \<noteq> 0"
  obtains j r where "j = max (binade \<bar>x\<bar>) (- 1022) - 52"
    and "r = of_int (rne (x / 2 powi j)) * 2 powi j"
    and "\<bar>r - x\<bar> \<le> 2 powi (j - 1)"
    and "round_double x = (if 2 ^ 1024 \<le> \<bar>r\<bar> then (if 0 < x then PInf else NInf) else Fin r)"
proof -
  define j where "j = max (binade \<bar>x\<bar>) (- 1022) - 52"
  define r where "r = of_int (rne (x / 2 powi j)) * (2 :: rat) powi j"
  have q: "(0 :: rat) < 2 powi j" by (rule two_powi_pos)
  have "r - x = (of_int (rne (x / 2 powi j)) - x / 2 powi j) * 2 powi j"
    using q by (simp add: r_def field_simps)
  then have "\<bar>r - x\<bar> = \<bar>of_int (rne (x / 2 powi j)) - x / 2 powi j\<bar> * 2 powi j"
    using q by (simp add: abs_mult)
  also have "\<dots> \<le> (1 / 2) * 2 powi j"
    using q by (intro mult_right_mono rne_error) simp
  also have "\<dots> = 2 powi (j - 1)"
    by (simp add: power_int_diff)
  finally have e: "\<bar>r - x\<bar> \<le> 2 powi (j - 1)" .
  have v: "round_double x = (if 2 ^ 1024 \<le> \<bar>r\<bar> then (if 0 < x then PInf else NInf) else Fin r)"
    using assms by (simp add: round_double_def Let_def r_def j_def)
  show ?thesis
    by (rule that [OF j_def r_def e v])
qed

lemma round_double_error:
  assumes "\<bar>x\<bar> < 2 powi j" and "- 1021 \<le> j" and "j \<le> 1023"
  shows "\<exists>r. round_double x = Fin r \<and> \<bar>r - x\<bar> \<le> 2 powi (j - 54)"
proof (cases "x = 0")
  case True
  then show ?thesis
    by (simp add: round_double_def less_imp_le two_powi_pos)
next
  case False
  then obtain i r where i: "i = max (binade \<bar>x\<bar>) (- 1022) - 52"
    and e: "\<bar>r - x\<bar> \<le> 2 powi (i - 1)"
    and v: "round_double x = (if 2 ^ 1024 \<le> \<bar>r\<bar> then (if 0 < x then PInf else NInf) else Fin r)"
    by (rule round_double_quantum)
  from False assms(1) have "binade \<bar>x\<bar> < j"
    by (intro binade_less) simp_all
  with assms(2) have "i - 1 \<le> j - 54" by (simp add: i)
  then have "(2 :: rat) powi (i - 1) \<le> 2 powi (j - 54)"
    by (simp only: two_powi_le)
  with e have err: "\<bar>r - x\<bar> \<le> 2 powi (j - 54)" by simp
  have "(2 :: rat) powi (j - 54) \<le> 2 powi j"
    by (simp only: two_powi_le)
  with err assms(1) have "\<bar>r\<bar> < 2 powi j + 2 powi j" by linarith
  also have "\<dots> = 2 powi (j + 1)"
    by (simp add: power_int_add)
  also have "\<dots> \<le> 2 powi 1024"
    using assms(3) by (simp only: two_powi_le)
  finally have "\<bar>r\<bar> < 2 ^ 1024" by simp
  with v err show ?thesis by simp
qed

lemma round_double_exact:
  assumes x: "x = of_int m * 2 powi k" and m: "\<bar>m\<bar> < 2 ^ 53" and k: "- 1074 \<le> k"
    and big: "\<bar>x\<bar> < 2 ^ 1024"
  shows "round_double x = Fin x"
proof (cases "x = 0")
  case True
  then show ?thesis by (simp add: round_double_def)
next
  case False
  then obtain i r where i: "i = max (binade \<bar>x\<bar>) (- 1022) - 52"
    and r: "r = of_int (rne (x / 2 powi i)) * 2 powi i"
    and v: "round_double x = (if 2 ^ 1024 \<le> \<bar>r\<bar> then (if 0 < x then PInf else NInf) else Fin r)"
    by (rule round_double_quantum)
  have "(of_int \<bar>m\<bar> :: rat) < of_int (2 ^ 53)"
    using m by (simp only: of_int_less_iff)
  then have "\<bar>of_int m :: rat\<bar> < 2 powi 53" by simp
  then have "\<bar>x\<bar> < 2 powi 53 * 2 powi k"
    unfolding x abs_mult by (simp add: two_powi_pos)
  also have "\<dots> = 2 powi (53 + k)"
    by (simp add: power_int_add)
  finally have "binade \<bar>x\<bar> < 53 + k"
    using False by (intro binade_less) simp_all
  with k have ik: "i \<le> k" by (simp add: i)
  have "x / 2 powi i = of_int m * 2 powi (k - i)"
    by (simp add: x power_int_diff)
  also have "\<dots> = of_int m * 2 ^ nat (k - i)"
    using ik by (simp add: power_int_nonneg_exp)
  also have "\<dots> = of_int (m * 2 ^ nat (k - i))"
    by simp
  finally have "rne (x / 2 powi i) = m * 2 ^ nat (k - i)"
    by (simp only: rne_of_int)
  then have "r = of_int m * 2 ^ nat (k - i) * 2 powi i"
    by (simp add: r)
  also have "\<dots> = of_int m * (2 powi (k - i) * 2 powi i)"
    using ik by (simp add: power_int_nonneg_exp)
  also have "(2 :: rat) powi (k - i) * 2 powi i = 2 powi k"
    by (simp add: power_int_add [symmetric])
  finally have "r = x" by (simp add: x)
  with v big show ?thesis by simp
qed

lemma round_double_of_int:
  "\<bar>m\<bar> < 2 ^ 53 \<Longrightarrow> round_double (of_int m) = Fin (of_int m)"
proof -
  assume m: "\<bar>m\<bar> < 2 ^ 53"
  then have "(of_int \<bar>m\<bar> :: rat) < of_int (2 ^ 53)"
    by (simp only: of_int_less_iff)
  also have "(of_int (2 ^ 53) :: rat) \<le> 2 ^ 1024" by simp
  finally have "\<bar>of_int m :: rat\<bar> < 2 ^ 1024" by simp
  with m show ?thesis
    by (intro round_double_exact [where m = m and k = 0]) simp_all
qed

lemma round_double_not_NaN: "round_double x \<noteq> NaN"
  by (simp add: round_double_def Let_def)

lemma round_double_nonneg:
  assumes "0 \<le> x"
  shows "round_double x = PInf \<or> (\<exists>r. round_double x = Fin r \<and> 0 \<le> r)"
proof (cases "x = 0")
  case True
  then show ?thesis by (simp add: round_double_def)
next
  case False
  then obtain i r where r: "r = of_int (rne (x / 2 powi i)) * 2 powi i"
    and v: "round_double x = (if 2 ^ 1024 \<le> \<bar>r\<bar> then (if 0 < x then PInf else NInf) else Fin r)"
    by (rule round_double_quantum)
  have "(of_int 0 :: rat) \<le> x / 2 powi i"
    using assms by (simp add: two_powi_pos less_imp_le)
  then have "0 \<le> rne (x / 2 powi i)" by (rule rne_ge)
  then have "0 \<le> r" by (simp add: r two_powi_pos less_imp_le)
  with v assms False show ?thesis by auto
qed

lemma round_double_nonpos:
  assumes "x \<le> 0"
  shows "round_double x = NInf \<or> (\<exists>r. round_double x = Fin r \<and> r \<le> 0)"
proof (cases "x = 0")
  case True
  then show ?thesis by (simp add: round_double_def)
next
  case False
  then obtain i r where r: "r = of_int (rne (x / 2 powi i)) * 2 powi i"
    and v: "round_double x = (if 2 ^ 1024 \<le> \<bar>r\<bar> then (if 0 < x then PInf else NInf) else Fin r)"
    by (rule round_double_quantum)
  have "x / 2 powi i \<le> (of_int 0 :: rat)"
    using assms by (simp add: two_powi_pos less_imp_le divide_le_0_iff)
  then have "rne (x / 2 powi i) \<le> 0" by (rule rne_le)
  then have "r \<le> 0" by (simp add: r two_powi_pos less_imp_le mult_le_0_iff)
  with v assms False show ?thesis by auto
qed

lemma round_double_ge:
  assumes "2 powi j \<le> x" and "- 1022 \<le> j"
  shows "round_double x = PInf \<or> (\<exists>r. round_double x = Fin r \<and> 2 powi j \<le> r)"
proof -
  have pos: "0 < x"
    using two_powi_pos [of j] assms(1) by (rule less_le_trans)
  then have "x \<noteq> 0" by simp
  then obtain i r where i: "i = max (binade \<bar>x\<bar>) (- 1022) - 52"
    and r: "r = of_int (rne (x / 2 powi i)) * 2 powi i"
    and v: "round_double x = (if 2 ^ 1024 \<le> \<bar>r\<bar> then (if 0 < x then PInf else NInf) else Fin r)"
    by (rule round_double_quantum)
  from assms(1) have "j \<le> binade x" by (rule binade_ge)
  with pos assms(2) have ib: "i = binade x - 52" by (simp add: i)
  have "2 powi binade x \<le> x" using pos by (rule binade_bounds)
  then have "2 powi binade x / 2 powi i \<le> x / 2 powi i"
    by (intro divide_right_mono) (simp_all add: two_powi_pos less_imp_le)
  moreover have "(2 :: rat) powi binade x / 2 powi i = of_int (2 ^ 52)"
    by (simp add: ib power_int_diff [symmetric])
  ultimately have "2 ^ 52 \<le> rne (x / 2 powi i)"
    by (intro rne_ge) simp
  then have "(of_int (2 ^ 52) :: rat) \<le> of_int (rne (x / 2 powi i))"
    by (simp only: of_int_le_iff)
  then have "of_int (2 ^ 52) * 2 powi i \<le> r"
    unfolding r by (intro mult_right_mono) (simp_all add: two_powi_pos less_imp_le)
  moreover have "of_int (2 ^ 52) * (2 :: rat) powi i = 2 powi binade x"
    by (simp add: ib power_int_diff)
  moreover have "(2 :: rat) powi j \<le> 2 powi binade x"
    using \<open>j \<le> binade x\<close> by (simp only: two_powi_le)
  ultimately have "2 powi j \<le> r" by simp
  with v pos show ?thesis by auto
qed

lemma rne_eqI: "\<bar>y - of_int m\<bar> < 1 / 2 \<Longrightarrow> rne y = m"
proof -
  assume a: "\<bar>y - of_int m\<bar> < 1 / 2"
  have "\<bar>of_int (rne y) - y\<bar> \<le> 1 / 2" by (rule rne_error)
  with a have "\<bar>(of_int (rne y) :: rat) - of_int m\<bar> < 1" by linarith
  then have "\<bar>(of_int (rne y - m) :: rat)\<bar> < of_int 1" by simp
  then have "\<bar>rne y - m\<bar> < 1"
    by (simp only: of_int_abs [symmetric] of_int_less_iff)
  then show ?thesis by simp
qed

lemma binade_eqI: "2 powi e \<le> x \<Longrightarrow> x < 2 powi (e + 1) \<Longrightarrow> binade x = e"
proof -
  assume lo: "2 powi e \<le> x" and hi: "x < 2 powi (e + 1)"
  have "0 < x" using two_powi_pos [of e] lo by (rule less_le_trans)
  then have "binade x < e + 1" using hi by (rule binade_less)
  moreover have "e \<le> binade x" using lo by (rule binade_ge)
  ultimately show ?thesis by simp
qed

text \<open>
  A rounding is checked from its exponent \<open>e\<close> and its significand \<open>m\<close>: \<open>x\<close> lies in
  the binade of \<open>e\<close> and within half a unit of \<open>m\<close> units.
\<close>

lemma round_double_eqI:
  assumes "2 powi e \<le> \<bar>x\<bar>" and "\<bar>x\<bar> < 2 powi (e + 1)" and "- 1022 \<le> e"
    and "\<bar>x / 2 powi (e - 52) - of_int m\<bar> < 1 / 2"
    and "r = of_int m * 2 powi (e - 52)" and "\<bar>r\<bar> < 2 ^ 1024"
  shows "round_double x = Fin r"
proof -
  have b: "binade \<bar>x\<bar> = e" using assms(1,2) by (rule binade_eqI)
  have "0 < \<bar>x\<bar>" using two_powi_pos [of e] assms(1) by (rule less_le_trans)
  then have "x \<noteq> 0" by simp
  moreover have "rne (x / 2 powi (e - 52)) = m" using assms(4) by (rule rne_eqI)
  ultimately show ?thesis
    using assms(3,5,6) by (simp add: round_double_def b Let_def max_def)
qed

lemma literal_values:
  "literal (95 / 100) = Fin (8556839292003942 / 2 ^ 53)"
  "literal (9 / 10) = Fin (8106479329266893 / 2 ^ 53)"
  "literal (1 / 10) = Fin (7205759403792794 / 2 ^ 56)"
  "literal (5 / 100) = Fin (7205759403792794 / 2 ^ 57)"
proof -
  show "literal (95 / 100) = Fin (8556839292003942 / 2 ^ 53)"
    unfolding literal_def
    by (rule round_double_eqI [where e = "- 1" and m = 8556839292003942]) simp_all
  show "literal (9 / 10) = Fin (8106479329266893 / 2 ^ 53)"
    unfolding literal_def
    by (rule round_double_eqI [where e = "- 1" and m = 8106479329266893]) simp_all
  show "literal (1 / 10) = Fin (7205759403792794 / 2 ^ 56)"
    unfolding literal_def
    by (rule round_double_eqI [where e = "- 4" and m = 7205759403792794]) simp_all
  show "literal (5 / 100) = Fin (7205759403792794 / 2 ^ 57)"
    unfolding literal_def
    by (rule round_double_eqI [where e = "- 5" and m = 7205759403792794]) simp_all
qed

text \<open>A result beyond the largest double is \<open>Infinity\<close>.\<close>

lemma round_double_Fin_bound: "round_double x = Fin r \<Longrightarrow> \<bar>r\<bar> < 2 ^ 1024"
  by (auto simp: round_double_def Let_def split: if_splits)

lemma round_double_overflow:
  assumes "2 ^ 1024 \<le> x"
  shows "round_double x = PInf"
proof -
  from assms have "2 powi 1024 \<le> x" by simp
  from round_double_ge [OF this]
  have "round_double x = PInf \<or> (\<exists>r. round_double x = Fin r \<and> 2 powi 1024 \<le> r)" by simp
  then show ?thesis
  proof
    assume "\<exists>r. round_double x = Fin r \<and> 2 powi 1024 \<le> r"
    then obtain r where r: "round_double x = Fin r" and "2 powi 1024 \<le> r" by blast
    then have "2 ^ 1024 \<le> \<bar>r\<bar>" by simp
    with round_double_Fin_bound [OF r] show ?thesis by simp
  qed
qed

section \<open>Properties of the stabilizer\<close>

lemma round_double_numeral:
  "(numeral n :: int) < 2 ^ 53 \<Longrightarrow> round_double (numeral n) = Fin (numeral n)"
  using round_double_of_int [of "numeral n"] by simp

lemma round_double_ge_0: "0 \<le> x \<Longrightarrow> num_ge (round_double x) (Fin 0)"
  using round_double_nonneg [of x] by (auto simp: num_ge_def)

lemma num_mul_nonneg: "num_gt t (Fin 0) \<Longrightarrow> 0 < k \<Longrightarrow> num_ge (num_mul t (Fin k)) (Fin 0)"
proof (cases t)
  case (Fin p)
  assume "num_gt t (Fin 0)" "0 < k"
  with Fin have "0 \<le> p * k" by (simp add: num_gt_def)
  then show ?thesis by (simp add: Fin round_double_ge_0)
qed (simp_all add: num_gt_def num_ge_def)

lemma num_add_nonneg:
  "num_ge a (Fin 0) \<Longrightarrow> num_ge b (Fin 0) \<Longrightarrow> num_ge (num_add a b) (Fin 0)"
proof (cases a; cases b)
  fix p q
  assume "a = Fin p" "b = Fin q" "num_ge a (Fin 0)" "num_ge b (Fin 0)"
  then show ?thesis by (simp add: num_ge_def round_double_ge_0 [unfolded num_ge_def])
qed (simp_all add: num_ge_def)

lemma Math_round_nonneg: "num_ge n (Fin 0) \<Longrightarrow> num_ge (Math_round n) (Fin 0)"
proof (cases n)
  case (Fin a)
  assume "num_ge n (Fin 0)"
  with Fin have "0 \<le> a + 1 / 2" by (simp add: num_ge_def)
  then have "0 \<le> \<lfloor>a + 1 / 2\<rfloor>" by (simp only: zero_le_floor)
  then have "(0 :: rat) \<le> of_int \<lfloor>a + 1 / 2\<rfloor>" by (simp only: of_int_0_le_iff)
  with Fin show ?thesis by (simp add: num_ge_def)
qed (simp_all add: num_ge_def)

lemma Math_max_nonneg:
  "a \<noteq> NaN \<Longrightarrow> num_ge b (Fin 0) \<Longrightarrow> num_ge (Math_max a b) (Fin 0)"
  by (cases a; cases b) (simp_all add: Math_max_def num_ge_def)


lemma num_ge_not_NaN: "num_ge a b \<Longrightarrow> a \<noteq> NaN"
  by (simp add: num_ge_def)

lemma not_below_positive:
  "\<not> num_lt i t \<Longrightarrow> i \<noteq> NaN \<Longrightarrow> num_gt t (Fin 0) \<Longrightarrow> num_gt i (Fin 0)"
  by (cases i; cases t) (simp_all add: num_gt_def)

lemma floor_95_nonneg:
  "num_gt totalActive_v (Fin 0) \<Longrightarrow>
   num_ge (Math_round (num_mul totalActive_v (literal (95 / 100)))) (Fin 0)"
  by (simp only: literal_values) (intro Math_round_nonneg num_mul_nonneg, simp_all)

lemma rise_nonneg:
  "num_gt totalActive_v (Fin 0) \<Longrightarrow> num_gt incoming (Fin 0) \<Longrightarrow>
   num_ge (Math_round (num_add (num_mul totalActive_v (literal (9 / 10)))
      (num_mul incoming (literal (1 / 10))))) (Fin 0)"
  by (simp only: literal_values) (intro Math_round_nonneg num_add_nonneg num_mul_nonneg, simp_all)

text \<open>
  The stabilized total is not negative when the accepted total before it is positive,
  and it is never NaN when neither argument is.
\<close>

lemma stabilizedTotal_nonneg:
  assumes pos: "num_gt totalActive_v (Fin 0)" and num: "incoming \<noteq> NaN"
  shows "num_ge (stabilizedTotal totalActive_v incoming) (Fin 0)"
proof (cases "num_lt incoming totalActive_v")
  case True
  from num floor_95_nonneg [OF pos]
  have "num_ge (Math_max incoming (Math_round (num_mul totalActive_v (literal (95 / 100))))) (Fin 0)"
    by (rule Math_max_nonneg)
  with pos True show ?thesis by (simp add: stabilizedTotal_def)
next
  case False
  then have "num_gt incoming (Fin 0)"
    using num pos by (rule not_below_positive)
  with pos False rise_nonneg [OF pos this] show ?thesis by (simp add: stabilizedTotal_def)
qed

lemma stabilizedTotal_not_NaN:
  assumes "totalActive_v \<noteq> NaN" and "incoming \<noteq> NaN"
  shows "stabilizedTotal totalActive_v incoming \<noteq> NaN"
proof (cases "num_gt totalActive_v (Fin 0)")
  case False
  with assms show ?thesis by (simp add: stabilizedTotal_def)
next
  case True
  from stabilizedTotal_nonneg [OF True assms(2)] show ?thesis by (rule num_ge_not_NaN)
qed

lemma incomingTotal_substitutes: "\<not> is_number v \<Longrightarrow> incomingTotal v = Fin 0"
  by (cases v) simp_all

text \<open>Single roundings, each checked from its exponent and significand.\<close>

lemma mul_1000_095: "num_mul (Fin 1000) (literal (95 / 100)) = Fin (950)"
  by (simp only: literal_values num_mul.simps num_add.simps num_sub_def num_neg.simps)
     (rule round_double_eqI [where e = 9 and m = 8356288371097600], simp_all)

lemma mul_200_095: "num_mul (Fin 200) (literal (95 / 100)) = Fin (190)"
  by (simp only: literal_values num_mul.simps num_add.simps num_sub_def num_neg.simps)
     (rule round_double_eqI [where e = 7 and m = 6685030696878080], simp_all)

lemma mul_1000_09: "num_mul (Fin 1000) (literal (9 / 10)) = Fin (900)"
  by (simp only: literal_values num_mul.simps num_add.simps num_sub_def num_neg.simps)
     (rule round_double_eqI [where e = 9 and m = 7916483719987200], simp_all)

lemma mul_1200_01: "num_mul (Fin 1200) (literal (1 / 10)) = Fin (120)"
  by (simp only: literal_values num_mul.simps num_add.simps num_sub_def num_neg.simps)
     (rule round_double_eqI [where e = 6 and m = 8444249301319680], simp_all)

lemma mul_1500_01: "num_mul (Fin 1500) (literal (1 / 10)) = Fin (150)"
  by (simp only: literal_values num_mul.simps num_add.simps num_sub_def num_neg.simps)
     (rule round_double_eqI [where e = 7 and m = 5277655813324800], simp_all)

lemma mul_1000_01: "num_mul (Fin 1000) (literal (1 / 10)) = Fin (100)"
  by (simp only: literal_values num_mul.simps num_add.simps num_sub_def num_neg.simps)
     (rule round_double_eqI [where e = 6 and m = 7036874417766400], simp_all)

lemma mul_5000_01: "num_mul (Fin 5000) (literal (1 / 10)) = Fin (500)"
  by (simp only: literal_values num_mul.simps num_add.simps num_sub_def num_neg.simps)
     (rule round_double_eqI [where e = 8 and m = 8796093022208000], simp_all)

lemma mul_half_09: "num_mul (Fin (1 / 2)) (literal (9 / 10)) = Fin (8106479329266893 / 2 ^ 54)"
  by (simp only: literal_values num_mul.simps num_add.simps num_sub_def num_neg.simps)
     (rule round_double_eqI [where e = "- 2" and m = 8106479329266893], simp_all)

lemma mul_half_01: "num_mul (Fin (1 / 2)) (literal (1 / 10)) = Fin (3602879701896397 / 2 ^ 56)"
  by (simp only: literal_values num_mul.simps num_add.simps num_sub_def num_neg.simps)
     (rule round_double_eqI [where e = "- 5" and m = 7205759403792794], simp_all)

lemma add_half: "num_add (Fin (8106479329266893 / 2 ^ 54)) (Fin (3602879701896397 / 2 ^ 56)) = Fin (1 / 2 ^ 1)"
  by (simp only: literal_values num_mul.simps num_add.simps num_sub_def num_neg.simps)
     (rule round_double_eqI [where e = "- 1" and m = 4503599627370496], simp_all)

lemma mul_big_09: "num_mul (Fin 4503599627370493) (literal (9 / 10)) = Fin (4053239664633444)"
  by (simp only: literal_values num_mul.simps num_add.simps num_sub_def num_neg.simps)
     (rule round_double_eqI [where e = 51 and m = 8106479329266888], simp_all)

lemma mul_big_01: "num_mul (Fin 4503599627370493) (literal (1 / 10)) = Fin (7205759403792789 / 2 ^ 4)"
  by (simp only: literal_values num_mul.simps num_add.simps num_sub_def num_neg.simps)
     (rule round_double_eqI [where e = 48 and m = 7205759403792789], simp_all)

lemma add_big: "num_add (Fin (4053239664633444)) (Fin (7205759403792789 / 2 ^ 4)) = Fin (9007199254740987 / 2 ^ 1)"
  by (simp only: literal_values num_mul.simps num_add.simps num_sub_def num_neg.simps)
     (rule round_double_eqI [where e = 51 and m = 9007199254740987], simp_all)

lemma add_whole:
  "num_add (Fin 900) (Fin 120) = Fin 1020"
  "num_add (Fin 900) (Fin 150) = Fin 1050"
  "num_add (Fin 900) (Fin 100) = Fin 1000"
  "num_add (Fin 900) (Fin 500) = Fin 1400"
  by (simp_all add: round_double_numeral)

lemma stabilized_examples:
  "stabilizedTotal (Fin 1000) (Fin 800) = Fin 950"
  "stabilizedTotal (Fin 200) (Fin 100) = Fin 190"
  "stabilizedTotal (Fin 1000) (Fin 1200) = Fin 1020"
  "stabilizedTotal (Fin 1000) (Fin 1500) = Fin 1050"
  "stabilizedTotal (Fin 1000) (Fin 1000) = Fin 1000"
  "stabilizedTotal (Fin 1000) (Fin 5000) = Fin 1400"
  unfolding stabilizedTotal_def mul_1000_095 mul_200_095 mul_1000_09 mul_1200_01 mul_1500_01
    mul_1000_01 mul_5000_01 add_whole
  by (simp_all add: num_gt_def Math_max_def floor_eq_iff)

lemma num_mul_Fin_literal:
  "num_mul (Fin p) (literal (95 / 100)) = round_double (p * (8556839292003942 / 2 ^ 53))"
  "num_mul (Fin p) (literal (9 / 10)) = round_double (p * (8106479329266893 / 2 ^ 53))"
  "num_mul (Fin p) (literal (1 / 10)) = round_double (p * (7205759403792794 / 2 ^ 56))"
  "num_mul (Fin p) (literal (5 / 100)) = round_double (p * (7205759403792794 / 2 ^ 57))"
  by (simp_all only: literal_values num_mul.simps)


text \<open>Equal whole-number inputs up to \<open>2 ^ 51\<close> come back unchanged.\<close>

lemma stabilize_equal_whole:
  assumes "k \<le> 2 ^ 51"
  shows "stabilizedTotal (Fin (of_int k)) (Fin (of_int k)) = Fin (of_int k)"
proof (cases "0 < k")
  case False
  then show ?thesis by (simp add: stabilizedTotal_def num_gt_def)
next
  case True
  define p :: rat where "p = of_int k"
  let ?c9 = "8106479329266893 / 2 ^ 53 :: rat"
  let ?c1 = "7205759403792794 / 2 ^ 56 :: rat"
  have p0: "0 < p" using True by (simp add: p_def)
  have "(of_int k :: rat) \<le> of_int (2 ^ 51)" using assms by (simp only: of_int_le_iff)
  then have p1: "p \<le> 2 ^ 51" by (simp add: p_def)
  have x9: "0 < p * ?c9" "p * ?c9 < p" using p0 by simp_all
  have x1: "0 < p * ?c1" "p * ?c1 < p / 8" using p0 by simp_all
  have sum: "p * ?c9 + p * ?c1 = p + p / 2 ^ 55" by (simp add: field_simps)
  have extra: "0 \<le> p / 2 ^ 55" "p / 2 ^ 55 \<le> 1 / 16" using p0 p1 by simp_all
  have "\<bar>p * ?c9\<bar> < 2 powi 51" using x9 p1 by simp
  from round_double_error [OF this]
  obtain a where a: "round_double (p * ?c9) = Fin a" and ea: "\<bar>a - p * ?c9\<bar> \<le> 2 powi (51 - 54)"
    by auto
  have "\<bar>p * ?c1\<bar> < 2 powi 48" using x1 p1 by simp
  from round_double_error [OF this]
  obtain b where b: "round_double (p * ?c1) = Fin b" and eb: "\<bar>b - p * ?c1\<bar> \<le> 2 powi (48 - 54)"
    by auto
  have pw: "(2 :: rat) powi (51 - 54) = 1 / 8" "(2 :: rat) powi (48 - 54) = 1 / 64"
    "(2 :: rat) powi (52 - 54) = 1 / 4" "(2 :: rat) powi 52 = 4503599627370496"
    "(2 :: rat) ^ 51 = 2251799813685248"
    by simp_all
  have ea': "\<bar>a - p * ?c9\<bar> \<le> 1 / 8" and eb': "\<bar>b - p * ?c1\<bar> \<le> 1 / 64"
    using ea eb by (simp_all only: pw)
  have p1': "p \<le> 2251799813685248" using p1 by (simp only: pw)
  have "\<bar>a + b\<bar> < 4503599627370496"
    using ea' eb' sum extra p0 p1' x9 x1 by linarith
  then have "\<bar>a + b\<bar> < 2 powi 52" by (simp only: pw)
  from round_double_error [OF this]
  obtain s where s: "round_double (a + b) = Fin s" and es: "\<bar>s - (a + b)\<bar> \<le> 2 powi (52 - 54)"
    by auto
  have es': "\<bar>s - (a + b)\<bar> \<le> 1 / 4" using es by (simp only: pw)
  have "\<bar>s - p\<bar> < 1 / 2"
    using ea' eb' es' sum extra by linarith
  then have "of_int k \<le> s + 1 / 2" "s + 1 / 2 < of_int k + 1"
    unfolding p_def by linarith+
  then have fl: "\<lfloor>s + 1 / 2\<rfloor> = k" by (rule floor_unique)
  have gt: "num_gt (Fin p) (Fin 0)" using p0 by (simp add: num_gt_def)
  have "stabilizedTotal (Fin p) (Fin p) =
      Math_round (num_add (num_mul (Fin p) (literal (9 / 10))) (num_mul (Fin p) (literal (1 / 10))))"
    using gt by (simp add: stabilizedTotal_def)
  also have "\<dots> = Math_round (num_add (Fin a) (Fin b))"
    by (simp only: num_mul_Fin_literal a b)
  also have "\<dots> = Fin (of_int \<lfloor>s + 1 / 2\<rfloor>)"
    by (simp only: num_add.simps s Math_round.simps)
  finally show ?thesis by (simp only: fl p_def)
qed






text \<open>
  C2, as stated, fails: equal inputs do not always come back. 0.5 with 0.5 gives 1, and
  the whole number 4503599627370493 with itself gives 4503599627370494.
\<close>

theorem stabilize_rise_counterexample:
  "stabilizedTotal (Fin (1 / 2)) (Fin (1 / 2)) = Fin 1 \<and>
   stabilizedTotal (Fin 4503599627370493) (Fin 4503599627370493) = Fin 4503599627370494"
  unfolding stabilizedTotal_def mul_half_09 mul_half_01 add_half mul_big_09 mul_big_01 add_big
  by (simp add: num_gt_def floor_eq_iff)

text \<open>
  C2, amended. Rise smoothing. When the accepted total is positive and the incoming
  total is at least as large, the stabilized total is
  \<open>Math.round(totalActive * 0.9 + incomingTotal * 0.1)\<close>, in double arithmetic as the code
  computes it. The accepted total 1000 with the incoming total 1200 gives 1020. Equal
  whole-number inputs up to \<open>2 ^ 51\<close> give the same number back, 1000 for 1000.
\<close>

theorem stabilize_rise:
  "(num_gt prev (Fin 0) \<and> num_ge inc prev \<longrightarrow>
      stabilizedTotal prev inc =
        Math_round (num_add (num_mul prev (literal (9 / 10))) (num_mul inc (literal (1 / 10))))) \<and>
   stabilizedTotal (Fin 1000) (Fin 1200) = Fin 1020 \<and>
   (k \<le> 2 ^ 51 \<longrightarrow> stabilizedTotal (Fin (of_int k)) (Fin (of_int k)) = Fin (of_int k)) \<and>
   stabilizedTotal (Fin 1000) (Fin 1000) = Fin 1000"
proof (intro conjI impI)
  assume "num_gt prev (Fin 0) \<and> num_ge inc prev"
  then show "stabilizedTotal prev inc =
        Math_round (num_add (num_mul prev (literal (9 / 10))) (num_mul inc (literal (1 / 10))))"
    by (simp add: stabilizedTotal_def num_ge_def)
next
  show "stabilizedTotal (Fin 1000) (Fin 1200) = Fin 1020"
    by (rule stabilized_examples)
next
  assume "k \<le> 2 ^ 51"
  then show "stabilizedTotal (Fin (of_int k)) (Fin (of_int k)) = Fin (of_int k)"
    by (rule stabilize_equal_whole)
next
  show "stabilizedTotal (Fin 1000) (Fin 1000) = Fin 1000"
    by (rule stabilized_examples)
qed

text \<open>The accepted total 1000 with the incoming total 1500 gives 1050; 42 with 42 gives 42.\<close>

theorem stabilize_rise_witness:
  "num_gt (Fin 1000) (Fin 0) \<and> num_ge (Fin 1500) (Fin 1000) \<and>
   stabilizedTotal (Fin 1000) (Fin 1500) =
     Math_round (num_add (num_mul (Fin 1000) (literal (9 / 10)))
                         (num_mul (Fin 1500) (literal (1 / 10)))) \<and>
   stabilizedTotal (Fin 1000) (Fin 1500) = Fin 1050 \<and>
   (42 :: int) \<le> 2 ^ 51 \<and>
   stabilizedTotal (Fin (of_int 42)) (Fin (of_int 42)) = Fin (of_int 42)"
proof -
  have h: "num_gt (Fin 1000) (Fin 0) \<and> num_ge (Fin 1500) (Fin 1000)"
    by (simp add: num_gt_def num_ge_def)
  have q: "(42 :: int) \<le> 2 ^ 51" by simp
  note th = stabilize_rise [of "Fin 1000" "Fin 1500" 42]
  from th h have 1: "stabilizedTotal (Fin 1000) (Fin 1500) =
     Math_round (num_add (num_mul (Fin 1000) (literal (9 / 10)))
                         (num_mul (Fin 1500) (literal (1 / 10))))" by blast
  from th q have 2: "stabilizedTotal (Fin (of_int 42)) (Fin (of_int 42)) = Fin (of_int 42)"
    by blast
  have 3: "stabilizedTotal (Fin 1000) (Fin 1500) = Fin 1050" by (rule stabilized_examples)
  from h q 1 2 3 show ?thesis by (intro conjI) blast+
qed

text \<open>
  C3. Bootstrap. When the accepted total is zero the incoming total is accepted as it
  is, whatever it is, so in particular every incoming total that is not negative.
\<close>

theorem stabilize_bootstrap: "stabilizedTotal (Fin 0) x = x"
  by (simp add: stabilizedTotal_def num_gt_def)

text \<open>Zero with 5000 gives 5000, zero with zero gives zero.\<close>

theorem stabilize_bootstrap_witness:
  "stabilizedTotal (Fin 0) (Fin 5000) = Fin 5000 \<and> stabilizedTotal (Fin 0) (Fin 0) = Fin 0"
  using stabilize_bootstrap [of "Fin 5000"] stabilize_bootstrap [of "Fin 0"] by simp

section \<open>Properties of the refresh scheduler\<close>



lemma checkAndRunUpdate_no_identity:
  "\<not> isLocalMode s \<Longrightarrow> user s = None \<Longrightarrow> checkAndRunUpdate P env s = Inr s"
  by (simp add: checkAndRunUpdate_def)

lemma checkAndRunUpdate_refresh:
  "needsUpdate (now env) (lastUpdated s) \<or> isLocalMode s \<Longrightarrow> isLocalMode s \<or> user s \<noteq> None \<Longrightarrow>
   checkAndRunUpdate P env s =
     try_catch (updateSequence P env (s\<lparr> apiStatus := ''loading'', sourceCalls := sourceCalls s + 1 \<rparr>))
       (\<lambda>e. Inr (s\<lparr> apiStatus := ''loading'', sourceCalls := sourceCalls s + 1,
                       apiStatus := ''error'', errorDetails := message e \<rparr>))"
  by (auto simp: checkAndRunUpdate_def Let_def)


text \<open>
  The difference of two whole-number times is exact below \<open>2 ^ 53\<close>, and beyond that its
  rounding stays on the same side of the threshold.
\<close>

lemma needsUpdate_int:
  "needsUpdate n (Some (Fin (of_int t))) = (n - t > 60 * 1000)"
proof -
  have d: "(of_int n :: rat) + - of_int t = of_int (n - t)" by simp
  have n: "needsUpdate n (Some (Fin (of_int t))) =
      num_lt (Fin 60000) (round_double (of_int (n - t)))"
    by (simp only: needsUpdate_def option.case num_sub_def num_neg.simps num_add.simps d
        num_gt_def stalenessThreshold_def) simp
  consider "\<bar>n - t\<bar> < 2 ^ 53" | "2 ^ 53 \<le> n - t" | "n - t \<le> - (2 ^ 53)"
    by linarith
  then show ?thesis
  proof cases
    case 1
    then have "round_double (of_int (n - t)) = Fin (of_int (n - t))"
      by (rule round_double_of_int)
    then have "needsUpdate n (Some (Fin (of_int t))) = ((60000 :: rat) < of_int (n - t))"
      by (simp only: n num_lt.simps)
    also have "\<dots> = (60000 < n - t)"
      by (simp only: of_int_numeral_less_iff)
    finally show ?thesis by simp
  next
    case 2
    then have "(of_int (2 ^ 53) :: rat) \<le> of_int (n - t)" by (simp only: of_int_le_iff)
    then have "2 powi 53 \<le> (of_int (n - t) :: rat)" by simp
    from round_double_ge [OF this]
    have "num_lt (Fin 60000) (round_double (of_int (n - t)))" by auto
    with 2 show ?thesis by (simp add: n)
  next
    case 3
    then have "(of_int (n - t) :: rat) \<le> of_int (- (2 ^ 53))" by (simp only: of_int_le_iff)
    then have "(of_int (n - t) :: rat) \<le> 0" by simp
    from round_double_nonpos [OF this]
    have "\<not> num_lt (Fin 60000) (round_double (of_int (n - t)))" by auto
    with 3 show ?thesis by (simp add: n)
  qed
qed

lemma needsUpdate_0: "needsUpdate n (Some (Fin 0)) = (n > 60 * 1000)"
  using needsUpdate_int [of n 0] by simp

lemma no_fence: "0x60 \<notin> set t \<Longrightarrow> remove_all (0x60 # p) t = t"
  by (induction t) auto

lemma unfenced:
  "0x60 \<notin> set t \<Longrightarrow> remove_all fence (remove_all fence_json t) = t"
  by (simp add: fence_def fence_json_def no_fence numeral_3_eq_3)

lemma trim_id: "t \<noteq> [] \<Longrightarrow> \<not> is_space (hd t) \<Longrightarrow> \<not> is_space (last t) \<Longrightarrow> trim t = t"
proof -
  assume t: "t \<noteq> []" and h: "\<not> is_space (hd t)" and l: "\<not> is_space (last t)"
  have keep: "dropWhile is_space xs = xs" if "xs \<noteq> []" "\<not> is_space (hd xs)" for xs
    using that by (cases xs) auto
  have "dropWhile is_space (rev t) = rev t"
    using t l by (intro keep) (simp_all add: hd_rev)
  then show ?thesis
    using t h by (simp add: trim_def keep)
qed

lemma parse_reply:
  "JSON_parse (Str (body r)) = Some (reply_value t) \<Longrightarrow> ok r \<Longrightarrow> t \<noteq> [] \<Longrightarrow>
   callGemini JSON_parse (Inr r) True = Inr (Str (trim (remove_all fence (remove_all fence_json t))))"
  by (simp add: callGemini_def reply_value_def Let_def)

lemma callGemini_reply_ok:
  assumes "JSON_parse (Str (reply_body t)) = Some (reply_value t)"
    and "t \<noteq> []" "0x60 \<notin> set t" "\<not> is_space (hd t)" "\<not> is_space (last t)"
  shows "callGemini JSON_parse (reply_ok t) True = Inr (Str t)"
proof -
  have "callGemini JSON_parse (reply_ok t) True =
      Inr (Str (trim (remove_all fence (remove_all fence_json t))))"
    unfolding reply_ok_def by (rule parse_reply) (simp_all add: assms)
  then show ?thesis
    by (simp add: unfenced trim_id assms)
qed

lemmas payload_defs =
  payload_5000_def payload_negative_def payload_overflow_def payload_malformed_def

lemma example_parse_bodies:
  "example_parse (Str (reply_body payload_5000)) = Some (reply_value payload_5000)"
  "example_parse (Str (reply_body payload_negative)) = Some (reply_value payload_negative)"
  "example_parse (Str (reply_body payload_overflow)) = Some (reply_value payload_overflow)"
  "example_parse (Str (reply_body payload_malformed)) = Some (reply_value payload_malformed)"
  by (simp_all add: example_parse_def reply_body_def payload_defs json_escape_def)

lemma example_parse_payloads:
  "example_parse (Str payload_5000) =
     Some (Obj [(js ''total'', Num (Fin 5000)), (js ''trend'', Str (js ''up'')), (js ''headlines'', Arr [Str (js ''A'')])])"
  "example_parse (Str payload_negative) =
     Some (Obj [(js ''total'', Num (Fin (- 5))), (js ''trend'', Str (js ''down'')), (js ''headlines'', Arr [Str (js ''B'')])])"
  "example_parse (Str payload_overflow) =
     Some (Obj [(js ''total'', Num PInf), (js ''trend'', Str (js ''up'')), (js ''headlines'', Arr [Str (js ''C'')])])"
  "example_parse (Str payload_malformed) = None"
  by (simp_all add: example_parse_def reply_body_def payload_defs json_escape_def)

lemma callGemini_examples:
  "callGemini example_parse (reply_ok payload_5000) True = Inr (Str payload_5000)"
  "callGemini example_parse (reply_ok payload_negative) True = Inr (Str payload_negative)"
  "callGemini example_parse (reply_ok payload_overflow) True = Inr (Str payload_overflow)"
  "callGemini example_parse (reply_ok payload_malformed) True = Inr (Str payload_malformed)"
proof -
  show "callGemini example_parse (reply_ok payload_5000) True = Inr (Str payload_5000)"
    by (rule callGemini_reply_ok [where JSON_parse = example_parse and t = payload_5000])
       (simp_all add: example_parse_bodies, simp_all add: payload_5000_def is_space_def)
  show "callGemini example_parse (reply_ok payload_negative) True = Inr (Str payload_negative)"
    by (rule callGemini_reply_ok [where JSON_parse = example_parse and t = payload_negative])
       (simp_all add: example_parse_bodies, simp_all add: payload_negative_def is_space_def)
  show "callGemini example_parse (reply_ok payload_overflow) True = Inr (Str payload_overflow)"
    by (rule callGemini_reply_ok [where JSON_parse = example_parse and t = payload_overflow])
       (simp_all add: example_parse_bodies, simp_all add: payload_overflow_def is_space_def)
  show "callGemini example_parse (reply_ok payload_malformed) True = Inr (Str payload_malformed)"
    by (rule callGemini_reply_ok [where JSON_parse = example_parse and t = payload_malformed])
       (simp_all add: example_parse_bodies, simp_all add: payload_malformed_def is_space_def)
qed

lemma callGemini_not_ok:
  "\<not> ok r \<Longrightarrow> callGemini JSON_parse (Inr r) useSearch =
     Inl (Error (js ''HTTP '' @ show_nat (status r) @ js '': '' @ body r))"
  by (simp add: callGemini_def)

lemma local_5000:
  "checkAndRunUpdate example_parse (tick_at 30000 (reply_ok payload_5000)) local_client =
     Inr (local_client\<lparr> totalActive := Fin 1400, lastUpdated := Some (Fin 32000), sourceCalls := 1 \<rparr>)"
  by (simp add: checkAndRunUpdate_def updateSequence_def tick_at_def callGemini_examples
      example_parse_payloads local_client_def isLocalMode_def try_catch_def
      stabilized_examples)

lemmas tick_eval =
  checkAndRunUpdate_def updateSequence_def tick_at_def callGemini_examples
  example_parse_payloads isLocalMode_def try_catch_def needsUpdate_0




lemma checkAndRunUpdate_never_throws: "checkAndRunUpdate JSON_parse env s \<noteq> Inl e"
  by (auto simp: checkAndRunUpdate_def try_catch_def Let_def split: sum.splits)

text \<open>
  C5, amended. When the refresh runs and the text the estimate source returned does not
  parse, the tick ends normally; the accepted total, the trend, the headlines, the
  time of the last update and the error details are what they were, and the status is
  \<open>loading\<close>, as set when the refresh began: it is not \<open>error\<close>.
\<close>

theorem parse_failure_retains_state:
  "(needsUpdate (now env) (lastUpdated s) \<or> isLocalMode s) \<and> (isLocalMode s \<or> user s \<noteq> None) \<and>
   callGemini JSON_parse (fetched env) True = Inr jsonStr \<and> JSON_parse jsonStr = None \<longrightarrow>
   checkAndRunUpdate JSON_parse env s =
     Inr (s\<lparr> apiStatus := ''loading'', sourceCalls := sourceCalls s + 1 \<rparr>)"
proof
  assume h: "(needsUpdate (now env) (lastUpdated s) \<or> isLocalMode s) \<and> (isLocalMode s \<or> user s \<noteq> None) \<and>
   callGemini JSON_parse (fetched env) True = Inr jsonStr \<and> JSON_parse jsonStr = None"
  then have "updateSequence JSON_parse env (s\<lparr> apiStatus := ''loading'', sourceCalls := sourceCalls s + 1 \<rparr>) =
      Inr (s\<lparr> apiStatus := ''loading'', sourceCalls := sourceCalls s + 1 \<rparr>)"
    by (simp add: updateSequence_def)
  with h show "checkAndRunUpdate JSON_parse env s =
     Inr (s\<lparr> apiStatus := ''loading'', sourceCalls := sourceCalls s + 1 \<rparr>)"
    by (simp add: checkAndRunUpdate_refresh try_catch_def)
qed

text \<open>
  The local client on a reply whose text is not JSON.
\<close>

theorem parse_failure_retains_state_witness:
  "isLocalMode local_client \<and>
   callGemini example_parse (fetched (tick_at 30000 (reply_ok payload_malformed))) True =
     Inr (Str payload_malformed) \<and>
   example_parse (Str payload_malformed) = None \<and>
   checkAndRunUpdate example_parse (tick_at 30000 (reply_ok payload_malformed)) local_client =
     Inr (local_client\<lparr> apiStatus := ''loading'', sourceCalls := 1 \<rparr>)"
  using parse_failure_retains_state
    [of "tick_at 30000 (reply_ok payload_malformed)" local_client example_parse "Str payload_malformed"]
  by (simp add: isLocalMode_def callGemini_examples example_parse_payloads)
     (simp add: local_client_def tick_at_def callGemini_examples)

text \<open>
  C5, as stated, fails: the status was \<open>success\<close> before the tick and is \<open>loading\<close>
  after it.
\<close>

theorem parse_failure_counterexample:
  "callGemini example_parse (reply_ok payload_malformed) True = Inr (Str payload_malformed) \<and>
   example_parse (Str payload_malformed) = None \<and>
   apiStatus local_client = ''success'' \<and>
   map_sum message apiStatus
     (checkAndRunUpdate example_parse (tick_at 30000 (reply_ok payload_malformed)) local_client) =
     Inr ''loading''"
  by (simp add: tick_eval local_client_def)

text \<open>
  C6. When the refresh runs and the response is not a success, \<open>callGemini\<close> throws an
  error whose message ends with the body of the response. The tick then ends normally
  with the status \<open>error\<close> and that message recorded; nothing else of the state
  changes, so the accepted total stays, and the ticks that follow run on that state.
\<close>

theorem http_failure_sets_error:
  "(needsUpdate (now env) (lastUpdated s) \<or> isLocalMode s) \<and> (isLocalMode s \<or> user s \<noteq> None) \<and>
   fetched env = Inr r \<and> \<not> ok r \<longrightarrow>
   callGemini JSON_parse (fetched env) True =
     Inl (Error (js ''HTTP '' @ show_nat (status r) @ js '': '' @ body r)) \<and>
   sublist (body r) (js ''HTTP '' @ show_nat (status r) @ js '': '' @ body r) \<and>
   checkAndRunUpdate JSON_parse env s =
     Inr (s\<lparr> apiStatus := ''error'',
              errorDetails := js ''HTTP '' @ show_nat (status r) @ js '': '' @ body r,
              sourceCalls := sourceCalls s + 1 \<rparr>) \<and>
   run_ticks JSON_parse (env # envs) s =
     run_ticks JSON_parse envs
       (s\<lparr> apiStatus := ''error'',
            errorDetails := js ''HTTP '' @ show_nat (status r) @ js '': '' @ body r,
            sourceCalls := sourceCalls s + 1 \<rparr>)"
proof (intro impI)
  assume h: "(needsUpdate (now env) (lastUpdated s) \<or> isLocalMode s) \<and> (isLocalMode s \<or> user s \<noteq> None) \<and>
   fetched env = Inr r \<and> \<not> ok r"
  let ?msg = "js ''HTTP '' @ show_nat (status r) @ js '': '' @ body r"
  from h have call: "callGemini JSON_parse (fetched env) True = Inl (Error ?msg)"
    by (simp add: callGemini_not_ok)
  have "suffix (body r) ?msg"
    unfolding suffix_def by (intro exI [of _ "js ''HTTP '' @ show_nat (status r) @ js '': ''"]) simp
  then have sub: "sublist (body r) ?msg"
    by (rule suffix_imp_sublist)
  have "updateSequence JSON_parse env (s\<lparr> apiStatus := ''loading'', sourceCalls := sourceCalls s + 1 \<rparr>) =
      Inl (Error ?msg)"
    using call by (simp add: updateSequence_def)
  with h have tick: "checkAndRunUpdate JSON_parse env s =
     Inr (s\<lparr> apiStatus := ''error'', errorDetails := ?msg, sourceCalls := sourceCalls s + 1 \<rparr>)"
    by (simp add: checkAndRunUpdate_refresh try_catch_def)
  have ticks: "run_ticks JSON_parse (env # envs) s =
     run_ticks JSON_parse envs
       (s\<lparr> apiStatus := ''error'', errorDetails := ?msg, sourceCalls := sourceCalls s + 1 \<rparr>)"
    by (simp only: run_ticks.simps tick sum.case)
  from call sub tick ticks show "callGemini JSON_parse (fetched env) True = Inl (Error ?msg) \<and>
   sublist (body r) ?msg \<and>
   checkAndRunUpdate JSON_parse env s =
     Inr (s\<lparr> apiStatus := ''error'', errorDetails := ?msg, sourceCalls := sourceCalls s + 1 \<rparr>) \<and>
   run_ticks JSON_parse (env # envs) s =
     run_ticks JSON_parse envs
       (s\<lparr> apiStatus := ''error'', errorDetails := ?msg, sourceCalls := sourceCalls s + 1 \<rparr>)"
    by (intro conjI)
qed

lemma show_nat_503: "show_nat 503 = js ''503''"
  by code_simp

text \<open>
  The local client on a response with status 503: the message is recorded, the accepted
  total stays 1000, and the next tick refreshes as usual.
\<close>

theorem http_failure_sets_error_witness:
  "isLocalMode local_client \<and>
   fetched (tick_at 30000 reply_unavailable) =
     Inr \<lparr> ok = False, status = 503, body = js ''quota exceeded'' \<rparr> \<and>
   callGemini example_parse reply_unavailable True = Inl (Error (js ''HTTP 503: quota exceeded'')) \<and>
   sublist (js ''quota exceeded'') (js ''HTTP 503: quota exceeded'') \<and>
   checkAndRunUpdate example_parse (tick_at 30000 reply_unavailable) local_client =
     Inr (local_client\<lparr> apiStatus := ''error'', errorDetails := js ''HTTP 503: quota exceeded'',
                          sourceCalls := 1 \<rparr>) \<and>
   totalActive local_client = Fin 1000 \<and>
   run_ticks example_parse [tick_at 30000 reply_unavailable, tick_at 40000 (reply_ok payload_5000)]
       local_client =
     Inr (local_client\<lparr> totalActive := Fin 1400, lastUpdated := Some (Fin 42000),
                          errorDetails := js ''HTTP 503: quota exceeded'', sourceCalls := 2 \<rparr>)"
proof -
  have l: "isLocalMode local_client"
    by (simp add: isLocalMode_def local_client_def)
  have f: "fetched (tick_at 30000 reply_unavailable) =
      Inr \<lparr> ok = False, status = 503, body = js ''quota exceeded'' \<rparr>"
    by (simp add: tick_at_def reply_unavailable_def)
  have next_tick: "checkAndRunUpdate example_parse (tick_at 40000 (reply_ok payload_5000))
       (local_client\<lparr> apiStatus := ''error'', errorDetails := js ''HTTP 503: quota exceeded'',
                          sourceCalls := 1 \<rparr>) =
     Inr (local_client\<lparr> totalActive := Fin 1400, lastUpdated := Some (Fin 42000),
                          errorDetails := js ''HTTP 503: quota exceeded'', sourceCalls := 2 \<rparr>)"
    by (simp add: tick_eval local_client_def stabilized_examples)
  let ?r = "\<lparr> ok = False, status = 503, body = js ''quota exceeded'' \<rparr>"
  have msg: "js ''HTTP '' @ show_nat (status ?r) @ js '': '' @ body ?r = js ''HTTP 503: quota exceeded''"
    by (simp add: show_nat_503 del: show_nat.simps)
  have one: "sourceCalls local_client + 1 = 1"
    by (simp add: local_client_def)
  have r: "fetched (tick_at 30000 reply_unavailable) = reply_unavailable"
    by (simp add: tick_at_def)
  have "(needsUpdate (now (tick_at 30000 reply_unavailable)) (lastUpdated local_client) \<or>
         isLocalMode local_client) \<and>
        (isLocalMode local_client \<or> user local_client \<noteq> None) \<and>
        fetched (tick_at 30000 reply_unavailable) = Inr ?r \<and> \<not> ok ?r"
    using l f by simp
  note th = http_failure_sets_error [rule_format, OF this, unfolded msg one r,
      of example_parse "[tick_at 40000 (reply_ok payload_5000)]"]
  have "run_ticks example_parse [tick_at 40000 (reply_ok payload_5000)]
            (local_client\<lparr> apiStatus := ''error'', errorDetails := js ''HTTP 503: quota exceeded'',
                 sourceCalls := 1 \<rparr>) =
     Inr (local_client\<lparr> totalActive := Fin 1400, lastUpdated := Some (Fin 42000),
                          errorDetails := js ''HTTP 503: quota exceeded'', sourceCalls := 2 \<rparr>)"
    by (simp only: run_ticks.simps next_tick sum.case)
  moreover have "totalActive local_client = Fin 1000"
    by (simp add: local_client_def)
  ultimately show ?thesis
    using l f th by (simp only: simp_thms response.select_convs)
qed



section \<open>Properties of the display animator\<close>

lemma number_or_zero_Fin: "number_or_zero (Num (Fin a)) = Fin a"
  by (simp add: number_or_zero_def isNaN_def)

lemma animate_updater_Fin:
  "num_sub (Fin t) (Fin c) = Fin d \<Longrightarrow>
   animate_updater (Num (Fin t)) (Num (Fin c)) =
     (if \<bar>d\<bar> < 1 then Fin t
      else num_add (Fin c) (round_double (d * (7205759403792794 / 2 ^ 57))))"
  by (simp only: animate_updater_def number_or_zero_Fin Let_def Math_abs.simps num_lt.simps
      num_mul_Fin_literal)

text \<open>
  Below \<open>2 ^ 30\<close> in magnitude, the computed difference is within \<open>2 ^ -23\<close> of the
  exact one, and the step that moves is within \<open>2 ^ -22\<close> of the exact 5% step.
\<close>

lemma diff_close:
  assumes "\<bar>t\<bar> < 2 ^ 30" and "\<bar>c\<bar> < 2 ^ 30"
  shows "\<exists>d. num_sub (Fin t) (Fin c) = Fin d \<and> \<bar>d - (t - c)\<bar> \<le> 1 / 2 ^ 23"
proof -
  have "\<bar>t + - c\<bar> < 2 powi 31" using assms by simp
  from round_double_error [OF this]
  obtain d where "round_double (t + - c) = Fin d" and "\<bar>d - (t + - c)\<bar> \<le> 2 powi (31 - 54)"
    by auto
  then show ?thesis by (simp add: num_sub_def)
qed

lemma animate_updater_move:
  assumes t: "\<bar>t\<bar> < 2 ^ 30" and c: "\<bar>c\<bar> < 2 ^ 30"
    and d: "num_sub (Fin t) (Fin c) = Fin d" and far: "1 \<le> \<bar>d\<bar>"
  shows "\<exists>a. animate_updater (Num (Fin t)) (Num (Fin c)) = Fin a \<and>
             \<bar>a - (c + (t - c) * (5 / 100))\<bar> \<le> 1 / 2 ^ 22"
proof -
  define k :: rat where "k = 7205759403792794 / 2 ^ 57"
  define D where "D = t - c"
  have k: "0 \<le> k" "0 \<le> k - 1 / 20" "2147483648 * (k - 1 / 20) \<le> 1 / 134217728"
    "2147483649 * k < 268435456" "(1 / 8388608) * k \<le> 1 / 134217728"
    by (simp_all add: k_def)
  from diff_close [OF t c] d have "\<bar>d - (t - c)\<bar> \<le> 1 / 2 ^ 23" by simp
  then have ed: "\<bar>d - D\<bar> \<le> 1 / 8388608" by (simp add: D_def)
  have c': "\<bar>c\<bar> < 1073741824" using c by simp
  have "\<bar>t\<bar> < 1073741824" using t by simp
  with c' have tc: "\<bar>D\<bar> < 2147483648" unfolding D_def by linarith
  have bd: "\<bar>d\<bar> < 2147483649" using ed tc by linarith
  have "\<bar>d * k\<bar> = \<bar>d\<bar> * k" using k(1) by (simp add: abs_mult)
  also have "\<dots> \<le> 2147483649 * k" using bd k(1) by (intro mult_right_mono) simp_all
  also note k(4)
  finally have dk: "\<bar>d * k\<bar> < 268435456" .
  then have "\<bar>d * k\<bar> < 2 powi 28" by simp
  from round_double_error [OF this]
  obtain m where m: "round_double (d * k) = Fin m" and "\<bar>m - d * k\<bar> \<le> 2 powi (28 - 54)"
    by auto
  then have em: "\<bar>m - d * k\<bar> \<le> 1 / 67108864" by simp
  have split: "d * k - D / 20 = (d - D) * k + D * (k - 1 / 20)"
    by (simp add: algebra_simps)
  have "\<bar>(d - D) * k\<bar> = \<bar>d - D\<bar> * k" using k(1) by (simp add: abs_mult)
  also have "\<dots> \<le> (1 / 8388608) * k" using ed k(1) by (intro mult_right_mono)
  also note k(5)
  finally have e1: "\<bar>(d - D) * k\<bar> \<le> 1 / 134217728" .
  have "\<bar>D * (k - 1 / 20)\<bar> = \<bar>D\<bar> * (k - 1 / 20)" using k(2) by (simp add: abs_mult)
  also have "\<dots> \<le> 2147483648 * (k - 1 / 20)" using tc k(2) by (intro mult_right_mono) simp_all
  also note k(3)
  finally have e2: "\<bar>D * (k - 1 / 20)\<bar> \<le> 1 / 134217728" .
  have "\<bar>(d - D) * k + D * (k - 1 / 20)\<bar> \<le> 1 / 67108864" using e1 e2 by linarith
  then have ek: "\<bar>d * k - D / 20\<bar> \<le> 1 / 67108864" by (simp only: split)
  have "\<bar>c + m\<bar> < 2147483648" using c' em dk by linarith
  then have "\<bar>c + m\<bar> < 2 powi 31" by simp
  from round_double_error [OF this]
  obtain a where a: "round_double (c + m) = Fin a" and "\<bar>a - (c + m)\<bar> \<le> 2 powi (31 - 54)"
    by auto
  then have ea: "\<bar>a - (c + m)\<bar> \<le> 1 / 8388608" by simp
  have "\<bar>a - (c + D / 20)\<bar> \<le> 1 / 4194304" using ea em ek by linarith
  then have "\<bar>a - (c + (t - c) * (5 / 100))\<bar> \<le> 1 / 2 ^ 22" by (simp add: D_def)
  moreover have "\<not> \<bar>d\<bar> < 1" using far by simp
  then have "animate_updater (Num (Fin t)) (Num (Fin c)) = Fin a"
    by (simp only: animate_updater_Fin [OF d] if_False m [unfolded k_def] num_add.simps a)
  ultimately show ?thesis by blast
qed

text \<open>
  A step that moves ends strictly between the displayed number and the accepted total,
  and takes the distance to 19/20 of what it was, up to \<open>2 ^ -22\<close>.
\<close>

lemma moved_between:
  fixes a c t :: rat
  assumes "\<bar>a - (c + (t - c) * (5 / 100))\<bar> \<le> 1 / 2 ^ 22" and "1 - 1 / 2 ^ 23 \<le> \<bar>t - c\<bar>"
  shows "min c t < a" and "a < max c t"
    and "(\<bar>t - c\<bar> + 5 / 2 ^ 20) * (19 / 20) \<le> \<bar>t - a\<bar> + 5 / 2 ^ 20"
    and "\<bar>t - a\<bar> - 5 / 2 ^ 20 \<le> (\<bar>t - c\<bar> - 5 / 2 ^ 20) * (19 / 20)"
proof -
  define D where "D = t - c"
  have pw: "(1 :: rat) / 2 ^ 22 = 1 / 4194304" "(1 :: rat) / 2 ^ 23 = 1 / 8388608"
    "(5 :: rat) / 2 ^ 20 = 5 / 1048576" "(5 :: rat) / 100 = 1 / 20"
    by simp_all
  have b: "\<bar>a - (c + D / 20)\<bar> \<le> 1 / 4194304" "1 - 1 / 8388608 \<le> \<bar>D\<bar>"
    using assms unfolding D_def [symmetric] pw by simp_all
  have t: "t = c + D" by (simp add: D_def)
  show "min c t < a" unfolding t using b by linarith
  show "a < max c t" unfolding t using b by linarith
  have "\<bar>D\<bar> * 19 / 20 + 19 / 4194304 \<le> \<bar>c + D - a\<bar> + 5 / 1048576"
    using b by linarith
  then show "(\<bar>t - c\<bar> + 5 / 2 ^ 20) * (19 / 20) \<le> \<bar>t - a\<bar> + 5 / 2 ^ 20"
    unfolding t by (simp add: algebra_simps)
  have "\<bar>c + D - a\<bar> - 5 / 1048576 \<le> \<bar>D\<bar> * 19 / 20 - 19 / 4194304"
    using b by linarith
  then show "\<bar>t - a\<bar> - 5 / 2 ^ 20 \<le> (\<bar>t - c\<bar> - 5 / 2 ^ 20) * (19 / 20)"
    unfolding t by (simp add: algebra_simps)
qed

text \<open>The two cases of a step, with what each says of the exact distance.\<close>

lemma animate_updater_cases:
  assumes t: "\<bar>t\<bar> < 2 ^ 30" and c: "\<bar>c\<bar> < 2 ^ 30"
  obtains (snap) "animate_updater (Num (Fin t)) (Num (Fin c)) = Fin t"
      and "\<bar>t - c\<bar> < 1 + 1 / 2 ^ 23"
    | (move) a where "animate_updater (Num (Fin t)) (Num (Fin c)) = Fin a"
      and "\<bar>a - (c + (t - c) * (5 / 100))\<bar> \<le> 1 / 2 ^ 22"
      and "1 - 1 / 2 ^ 23 \<le> \<bar>t - c\<bar>"
proof -
  from diff_close [OF t c]
  obtain d where d: "num_sub (Fin t) (Fin c) = Fin d" and ed: "\<bar>d - (t - c)\<bar> \<le> 1 / 2 ^ 23"
    by blast
  show thesis
  proof (cases "\<bar>d\<bar> < 1")
    case True
    then have "animate_updater (Num (Fin t)) (Num (Fin c)) = Fin t"
      by (simp only: animate_updater_Fin [OF d] if_True)
    moreover have "\<bar>t - c\<bar> < 1 + 1 / 2 ^ 23" using True ed by linarith
    ultimately show thesis by (rule snap)
  next
    case False
    then have far: "1 \<le> \<bar>d\<bar>" by simp
    from animate_updater_move [OF t c d far]
    obtain a where "animate_updater (Num (Fin t)) (Num (Fin c)) = Fin a"
      and "\<bar>a - (c + (t - c) * (5 / 100))\<bar> \<le> 1 / 2 ^ 22" by blast
    moreover have "1 - 1 / 2 ^ 23 \<le> \<bar>t - c\<bar>" using far ed by linarith
    ultimately show thesis by (rule move)
  qed
qed

lemma animate_updater_near:
  assumes "\<bar>t\<bar> < 2 ^ 30" and "\<bar>c\<bar> < 2 ^ 30" and "\<bar>t - c\<bar> < 1 - 1 / 2 ^ 23"
  shows "animate_updater (Num (Fin t)) (Num (Fin c)) = Fin t"
  using assms(1,2)
proof (cases rule: animate_updater_cases)
  case snap
  then show ?thesis by simp
next
  case (move a)
  with assms(3) show ?thesis by simp
qed

lemma animate_updater_far:
  assumes "\<bar>t\<bar> < 2 ^ 30" and "\<bar>c\<bar> < 2 ^ 30" and "1 + 1 / 2 ^ 23 \<le> \<bar>t - c\<bar>"
  shows "\<exists>a. animate_updater (Num (Fin t)) (Num (Fin c)) = Fin a \<and>
             \<bar>a - (c + (t - c) * (5 / 100))\<bar> \<le> 1 / 2 ^ 22"
  using assms(1,2)
proof (cases rule: animate_updater_cases)
  case snap
  with assms(3) show ?thesis by simp
next
  case (move a)
  then show ?thesis by blast
qed

text \<open>Running \<open>animate\<close> \<open>n\<close> times shows the \<open>n\<close>-th iterate of the updater.\<close>

lemma animate_frames:
  "(animate ^^ n) s = s\<lparr> displayNumber := frames n (Num (totalActive s)) (displayNumber s) \<rparr>"
proof (induction n arbitrary: s)
  case 0
  show ?case by simp
next
  case (Suc n)
  have "(animate ^^ Suc n) s = (animate ^^ n) (animate s)"
    by (simp only: funpow_Suc_right o_apply)
  also have "\<dots> = (animate s)\<lparr> displayNumber :=
      frames n (Num (totalActive (animate s))) (displayNumber (animate s)) \<rparr>"
    by (rule Suc)
  also have "\<dots> = s\<lparr> displayNumber := frames (Suc n) (Num (totalActive s)) (displayNumber s) \<rparr>"
    by (simp add: animate_def)
  finally show ?case .
qed

lemma frames_add: "frames (m + n) v c = frames n v (frames m v c)"
  by (induction m arbitrary: c) simp_all

lemma frames_fixed: "animate_updater v (Num c) = c \<Longrightarrow> frames n v c = c"
  by (induction n) simp_all

lemma frames_target: "frames n (Num (Fin t)) (Fin t) = Fin t"
proof (rule frames_fixed)
  have "num_sub (Fin t) (Fin t) = Fin 0"
    by (simp add: num_sub_def round_double_def)
  from animate_updater_Fin [OF this]
  show "animate_updater (Num (Fin t)) (Num (Fin t)) = Fin t" by simp
qed

lemma frames_between:
  assumes "\<bar>t\<bar> < 2 ^ 30" and "\<bar>c\<bar> < 2 ^ 30"
  shows "\<exists>a. frames n (Num (Fin t)) (Fin c) = Fin a \<and> min c t \<le> a \<and> a \<le> max c t"
  using assms
proof (induction n arbitrary: c)
  case 0
  show ?case by simp
next
  case (Suc n)
  obtain c' where step: "animate_updater (Num (Fin t)) (Num (Fin c)) = Fin c'"
    and lo: "min c t \<le> c'" and hi: "c' \<le> max c t"
    using Suc.prems
  proof (cases rule: animate_updater_cases)
    case snap
    show ?thesis by (rule that [of t]) (simp_all add: snap)
  next
    case (move a)
    from moved_between(1,2) [OF move(2,3)] move(1)
    show ?thesis by (intro that [of a]) simp_all
  qed
  have "\<bar>c'\<bar> < 2 ^ 30" using lo hi Suc.prems by linarith
  from Suc.IH [OF Suc.prems(1) this]
  obtain a where a: "frames n (Num (Fin t)) (Fin c') = Fin a"
    and alo: "min c' t \<le> a" and ahi: "a \<le> max c' t" by blast
  have "min c t \<le> a" using lo alo by linarith
  moreover have "a \<le> max c t" using hi ahi by linarith
  ultimately show ?case
    using a step by simp
qed

lemma frames_converged:
  assumes "\<bar>t\<bar> < 2 ^ 30" and "\<bar>c\<bar> < 2 ^ 30"
    and "(\<bar>t - c\<bar> - 5 / 2 ^ 20) * (19 / 20) ^ n < 1 - 21 / 2 ^ 22"
  shows "frames (Suc n) (Num (Fin t)) (Fin c) = Fin t"
  using assms
proof (induction n arbitrary: c)
  case 0
  then have "\<bar>t - c\<bar> < 1 - 1 / 2 ^ 23" by simp
  with 0 have "animate_updater (Num (Fin t)) (Num (Fin c)) = Fin t"
    by (intro animate_updater_near)
  then show ?case by simp
next
  case (Suc n)
  from Suc.prems(1,2) show ?case
  proof (cases rule: animate_updater_cases)
    case snap
    then have "frames (Suc (Suc n)) (Num (Fin t)) (Fin c) = frames (Suc n) (Num (Fin t)) (Fin t)"
      by simp
    then show ?thesis by (simp only: frames_target)
  next
    case (move a)
    note m = moved_between [OF move(2,3)]
    have dom: "\<bar>a\<bar> < 2 ^ 30" using m(1,2) Suc.prems(1,2) by linarith
    have "(\<bar>t - a\<bar> - 5 / 2 ^ 20) * (19 / 20) ^ n
        \<le> ((\<bar>t - c\<bar> - 5 / 2 ^ 20) * (19 / 20)) * (19 / 20) ^ n"
      using m(4) by (intro mult_right_mono) simp_all
    also have "\<dots> = (\<bar>t - c\<bar> - 5 / 2 ^ 20) * (19 / 20) ^ Suc n"
      by (simp only: power_Suc mult.assoc)
    also note Suc.prems(3)
    finally have "frames (Suc n) (Num (Fin t)) (Fin a) = Fin t"
      by (intro Suc.IH Suc.prems(1) dom)
    with move(1) show ?thesis by simp
  qed
qed

lemma frames_stays:
  assumes "frames n (Num (Fin t)) (Fin c) = Fin t" and "n \<le> m"
  shows "frames m (Num (Fin t)) (Fin c) = Fin t"
proof -
  from \<open>n \<le> m\<close> obtain k where "m = n + k" using le_Suc_ex by blast
  then show ?thesis by (simp only: frames_add assms(1) frames_target)
qed

lemma bernoulli_rat: "1 + of_nat n / 19 \<le> ((20 / 19) ^ n :: rat)"
proof (induction n)
  case 0
  show ?case by simp
next
  case (Suc n)
  have "1 + of_nat (Suc n) / 19 \<le> (1 + of_nat n / 19) * (20 / 19 :: rat)"
    by (simp add: field_simps)
  also have "\<dots> \<le> (20 / 19) ^ n * (20 / 19)"
    using Suc by (intro mult_right_mono) simp_all
  finally show ?case by (simp add: mult.commute)
qed

lemma shrink_below_one:
  assumes "19 * d \<le> of_nat n" "0 \<le> d"
  shows "d * (19 / 20) ^ n < (1 :: rat)"
proof -
  have "d < 1 + of_nat n / 19" using assms by (simp add: field_simps)
  also have "\<dots> \<le> (20 / 19) ^ n" by (rule bernoulli_rat)
  finally have "d * (19 / 20) ^ n < (20 / 19) ^ n * (19 / 20) ^ n"
    by (intro mult_strict_right_mono) simp_all
  also have "\<dots> = ((20 / 19) * (19 / 20 :: rat)) ^ n"
    by (simp only: power_mult_distrib)
  also have "\<dots> = 1" by simp
  finally show ?thesis .
qed

lemma frames_bounded:
  assumes t: "\<bar>t\<bar> < 2 ^ 30" and c: "\<bar>c\<bar> < 2 ^ 30" and m: "nat \<lceil>38 * \<bar>t - c\<bar>\<rceil> + 1 \<le> m"
  shows "frames m (Num (Fin t)) (Fin c) = Fin t"
proof -
  let ?n = "nat \<lceil>38 * \<bar>t - c\<bar>\<rceil>"
  have "\<lceil>0 :: rat\<rceil> \<le> \<lceil>38 * \<bar>t - c\<bar>\<rceil>" by (rule ceiling_mono) simp
  then have "0 \<le> \<lceil>38 * \<bar>t - c\<bar>\<rceil>" by (simp only: ceiling_zero)
  then have "of_int \<lceil>38 * \<bar>t - c\<bar>\<rceil> = (of_nat ?n :: rat)"
    by simp
  moreover have "38 * \<bar>t - c\<bar> \<le> of_int \<lceil>38 * \<bar>t - c\<bar>\<rceil>" by (rule le_of_int_ceiling)
  ultimately have "19 * (2 * \<bar>t - c\<bar>) \<le> of_nat ?n" by simp
  then have "(2 * \<bar>t - c\<bar>) * (19 / 20) ^ ?n < 1"
    by (intro shrink_below_one) simp_all
  then have half: "\<bar>t - c\<bar> * (19 / 20) ^ ?n < 1 / 2" by simp
  have "(\<bar>t - c\<bar> - 5 / 2 ^ 20) * (19 / 20) ^ ?n \<le> \<bar>t - c\<bar> * (19 / 20) ^ ?n"
    by (intro mult_right_mono) simp_all
  also note half
  also have "(1 / 2 :: rat) < 1 - 21 / 2 ^ 22" by simp
  finally have "frames (Suc ?n) (Num (Fin t)) (Fin c) = Fin t"
    by (intro frames_converged t c)
  moreover have "Suc ?n \<le> m" using m by simp
  ultimately show ?thesis by (rule frames_stays)
qed

text \<open>
  While the distance is well above 1 every step moves, and the distance after \<open>n\<close> steps
  is \<open>(19 / 20) ^ n\<close> of the first one up to \<open>5 / 2 ^ 20\<close>.
\<close>

lemma frames_moving:
  assumes "\<bar>t\<bar> < 2 ^ 30" and "\<bar>c\<bar> < 2 ^ 30"
    and "1 + 21 / 2 ^ 22 \<le> (\<bar>t - c\<bar> + 5 / 2 ^ 20) * (19 / 20) ^ n"
  shows "\<exists>a. frames (Suc n) (Num (Fin t)) (Fin c) = Fin a \<and>
             (\<bar>t - c\<bar> + 5 / 2 ^ 20) * (19 / 20) ^ Suc n \<le> \<bar>t - a\<bar> + 5 / 2 ^ 20 \<and>
             \<bar>t - a\<bar> - 5 / 2 ^ 20 \<le> (\<bar>t - c\<bar> - 5 / 2 ^ 20) * (19 / 20) ^ Suc n"
  using assms
proof (induction n arbitrary: c)
  case 0
  from 0(3) have far: "1 + 1 / 2 ^ 23 \<le> \<bar>t - c\<bar>" by simp
  from animate_updater_far [OF 0(1,2) this]
  obtain a where a: "animate_updater (Num (Fin t)) (Num (Fin c)) = Fin a"
    and e: "\<bar>a - (c + (t - c) * (5 / 100))\<bar> \<le> 1 / 2 ^ 22" by blast
  from far have "1 - 1 / 2 ^ 23 \<le> \<bar>t - c\<bar>" by simp
  note m = moved_between [OF e this]
  have "frames (Suc 0) (Num (Fin t)) (Fin c) = Fin a" by (simp add: a)
  moreover from m(3)
  have "(\<bar>t - c\<bar> + 5 / 2 ^ 20) * (19 / 20) ^ Suc 0 \<le> \<bar>t - a\<bar> + 5 / 2 ^ 20"
    by (simp only: power_Suc power_0 mult_1_right)
  moreover from m(4)
  have "\<bar>t - a\<bar> - 5 / 2 ^ 20 \<le> (\<bar>t - c\<bar> - 5 / 2 ^ 20) * (19 / 20) ^ Suc 0"
    by (simp only: power_Suc power_0 mult_1_right)
  ultimately show ?case by blast
next
  case (Suc n)
  have "(\<bar>t - c\<bar> + 5 / 2 ^ 20) * (19 / 20) ^ Suc n \<le> \<bar>t - c\<bar> + 5 / 2 ^ 20"
    by (intro mult_left_le power_le_one) simp_all
  with Suc.prems(3) have far: "1 + 1 / 2 ^ 23 \<le> \<bar>t - c\<bar>" by simp
  from animate_updater_far [OF Suc.prems(1,2) this]
  obtain a where a: "animate_updater (Num (Fin t)) (Num (Fin c)) = Fin a"
    and e: "\<bar>a - (c + (t - c) * (5 / 100))\<bar> \<le> 1 / 2 ^ 22" by blast
  from far have "1 - 1 / 2 ^ 23 \<le> \<bar>t - c\<bar>" by simp
  note m = moved_between [OF e this]
  have dom: "\<bar>a\<bar> < 2 ^ 30" using m(1,2) Suc.prems(1,2) by linarith
  have lo_step: "(\<bar>t - c\<bar> + 5 / 2 ^ 20) * (19 / 20) ^ Suc k
      \<le> (\<bar>t - a\<bar> + 5 / 2 ^ 20) * (19 / 20) ^ k" for k
  proof -
    have "(\<bar>t - c\<bar> + 5 / 2 ^ 20) * (19 / 20) ^ Suc k
        = ((\<bar>t - c\<bar> + 5 / 2 ^ 20) * (19 / 20)) * (19 / 20) ^ k"
      by (simp only: power_Suc mult.assoc)
    also have "\<dots> \<le> (\<bar>t - a\<bar> + 5 / 2 ^ 20) * (19 / 20) ^ k"
      using m(3) by (intro mult_right_mono) simp_all
    finally show ?thesis .
  qed
  have hi_step: "(\<bar>t - a\<bar> - 5 / 2 ^ 20) * (19 / 20) ^ k
      \<le> (\<bar>t - c\<bar> - 5 / 2 ^ 20) * (19 / 20) ^ Suc k" for k
  proof -
    have "(\<bar>t - a\<bar> - 5 / 2 ^ 20) * (19 / 20) ^ k
        \<le> ((\<bar>t - c\<bar> - 5 / 2 ^ 20) * (19 / 20)) * (19 / 20) ^ k"
      using m(4) by (intro mult_right_mono) simp_all
    also have "\<dots> = (\<bar>t - c\<bar> - 5 / 2 ^ 20) * (19 / 20) ^ Suc k"
      by (simp only: power_Suc mult.assoc)
    finally show ?thesis .
  qed
  from Suc.prems(3) lo_step [of n]
  have "1 + 21 / 2 ^ 22 \<le> (\<bar>t - a\<bar> + 5 / 2 ^ 20) * (19 / 20) ^ n" by (rule order_trans)
  from Suc.IH [OF Suc.prems(1) dom this]
  obtain b where b: "frames (Suc n) (Num (Fin t)) (Fin a) = Fin b"
    and lo: "(\<bar>t - a\<bar> + 5 / 2 ^ 20) * (19 / 20) ^ Suc n \<le> \<bar>t - b\<bar> + 5 / 2 ^ 20"
    and hi: "\<bar>t - b\<bar> - 5 / 2 ^ 20 \<le> (\<bar>t - a\<bar> - 5 / 2 ^ 20) * (19 / 20) ^ Suc n"
    by blast
  have "frames (Suc (Suc n)) (Num (Fin t)) (Fin c) = Fin b"
    using a b by simp
  moreover from lo_step [of "Suc n"] lo
  have "(\<bar>t - c\<bar> + 5 / 2 ^ 20) * (19 / 20) ^ Suc (Suc n) \<le> \<bar>t - b\<bar> + 5 / 2 ^ 20"
    by (rule order_trans)
  moreover from hi hi_step [of "Suc n"]
  have "\<bar>t - b\<bar> - 5 / 2 ^ 20 \<le> (\<bar>t - c\<bar> - 5 / 2 ^ 20) * (19 / 20) ^ Suc (Suc n)"
    by (rule order_trans)
  ultimately show ?case by blast
qed

lemma frames_Suc_end: "frames (Suc n) v c = animate_updater v (Num (frames n v c))"
  using frames_add [of n 1 v c] by simp

text \<open>The run from 0 to the accepted total 1000.\<close>

lemma frames_1000_track:
  assumes "n \<le> 135"
  shows "\<exists>a. frames n (Num (Fin 1000)) (Fin 0) = Fin a \<and> 0 \<le> a \<and> a \<le> 1000 \<and>
             (1000 + 5 / 2 ^ 20) * (19 / 20) ^ n \<le> 1000 - a + 5 / 2 ^ 20 \<and>
             1000 - a - 5 / 2 ^ 20 \<le> (1000 - 5 / 2 ^ 20) * (19 / 20) ^ n"
proof (cases n)
  case 0
  then show ?thesis by simp
next
  case (Suc k)
  with assms have "k \<le> 134" by simp
  then have "(19 / 20 :: rat) ^ 134 \<le> (19 / 20) ^ k"
    by (intro power_decreasing) simp_all
  then have "(1000 + 5 / 2 ^ 20) * (19 / 20 :: rat) ^ 134 \<le> (1000 + 5 / 2 ^ 20) * (19 / 20) ^ k"
    by (intro mult_left_mono) simp_all
  moreover have "1 + 21 / 2 ^ 22 \<le> (1000 + 5 / 2 ^ 20) * (19 / 20 :: rat) ^ 134"
    by (simp add: power_divide)
  ultimately have "1 + 21 / 2 ^ 22 \<le> (1000 + 5 / 2 ^ 20) * (19 / 20 :: rat) ^ k"
    by (rule order_trans [rotated])
  then have "1 + 21 / 2 ^ 22 \<le> (\<bar>1000 - 0 :: rat\<bar> + 5 / 2 ^ 20) * (19 / 20) ^ k"
    by simp
  from frames_moving [OF _ _ this]
  obtain a where a: "frames (Suc k) (Num (Fin 1000)) (Fin 0) = Fin a"
    and lo: "(\<bar>1000 - 0\<bar> + 5 / 2 ^ 20) * (19 / 20) ^ Suc k \<le> \<bar>1000 - a\<bar> + 5 / 2 ^ 20"
    and hi: "\<bar>1000 - a\<bar> - 5 / 2 ^ 20 \<le> (\<bar>1000 - 0\<bar> - 5 / 2 ^ 20) * (19 / 20) ^ Suc k"
    by auto
  from frames_between [of 1000 0 "Suc k"] a have r: "0 \<le> a" "a \<le> 1000" by auto
  then have "\<bar>1000 - a\<bar> = 1000 - a" by simp
  with lo hi have "(1000 + 5 / 2 ^ 20) * (19 / 20) ^ Suc k \<le> 1000 - a + 5 / 2 ^ 20"
    and "1000 - a - 5 / 2 ^ 20 \<le> (1000 - 5 / 2 ^ 20) * (19 / 20) ^ Suc k"
    by simp_all
  with a r Suc show ?thesis by blast
qed

lemma frames_1000_reached: "136 \<le> n \<Longrightarrow> frames n (Num (Fin 1000)) (Fin 0) = Fin 1000"
proof -
  assume n: "136 \<le> n"
  have "(1000 - 5 / 2 ^ 20) * (19 / 20 :: rat) ^ 135 < 1 - 21 / 2 ^ 22"
    by (simp add: power_divide)
  then have "(\<bar>1000 - 0 :: rat\<bar> - 5 / 2 ^ 20) * (19 / 20) ^ 135 < 1 - 21 / 2 ^ 22" by simp
  from frames_converged [OF _ _ this]
  have "frames (Suc 135) (Num (Fin 1000)) (Fin 0) = Fin 1000" by simp
  moreover have "Suc 135 \<le> n" using n by simp
  ultimately show ?thesis by (rule frames_stays)
qed

lemma frames_1000_increasing:
  assumes "n < 136"
  shows "\<exists>a b. frames n (Num (Fin 1000)) (Fin 0) = Fin a \<and>
               frames (Suc n) (Num (Fin 1000)) (Fin 0) = Fin b \<and> a < b \<and> b \<le> 1000"
proof -
  from assms have "n \<le> 135" by simp
  from frames_1000_track [OF this]
  obtain a where a: "frames n (Num (Fin 1000)) (Fin 0) = Fin a" and r: "0 \<le> a" "a \<le> 1000"
    and lo: "(1000 + 5 / 2 ^ 20) * (19 / 20) ^ n \<le> 1000 - a + 5 / 2 ^ 20"
    and hi: "1000 - a - 5 / 2 ^ 20 \<le> (1000 - 5 / 2 ^ 20) * (19 / 20) ^ n"
    by blast
  have dom: "\<bar>1000 :: rat\<bar> < 2 ^ 30" "\<bar>a\<bar> < 2 ^ 30" using r by simp_all
  have step: "frames (Suc n) (Num (Fin 1000)) (Fin 0) = animate_updater (Num (Fin 1000)) (Num (Fin a))"
    by (simp only: frames_Suc_end a)
  show ?thesis
  proof (cases "n < 135")
    case True
    then have "(19 / 20 :: rat) ^ 134 \<le> (19 / 20) ^ n"
      by (intro power_decreasing) simp_all
    then have "(1000 + 5 / 2 ^ 20) * (19 / 20 :: rat) ^ 134 \<le> (1000 + 5 / 2 ^ 20) * (19 / 20) ^ n"
      by (intro mult_left_mono) simp_all
    moreover have "1 + 21 / 2 ^ 22 \<le> (1000 + 5 / 2 ^ 20) * (19 / 20 :: rat) ^ 134"
      by (simp add: power_divide)
    ultimately have "1 + 21 / 2 ^ 22 \<le> 1000 - a + 5 / 2 ^ 20"
      using lo by linarith
    then have far: "1 + 1 / 2 ^ 23 \<le> \<bar>1000 - a\<bar>" using r by simp
    from animate_updater_far [OF dom this]
    obtain b where b: "animate_updater (Num (Fin 1000)) (Num (Fin a)) = Fin b"
      and e: "\<bar>b - (a + (1000 - a) * (5 / 100))\<bar> \<le> 1 / 2 ^ 22" by blast
    from far have "1 - 1 / 2 ^ 23 \<le> \<bar>1000 - a\<bar>" by simp
    from moved_between(1,2) [OF e this] r have "a < b" "b \<le> 1000" by simp_all
    with a b step show ?thesis by simp
  next
    case False
    with assms have n: "n = 135" by simp
    have "(1000 - 5 / 2 ^ 20) * (19 / 20 :: rat) ^ 135 < 1 - 21 / 2 ^ 22"
      by (simp add: power_divide)
    with hi have "1000 - a - 5 / 2 ^ 20 < 1 - 21 / 2 ^ 22" unfolding n by (rule le_less_trans)
    then have "\<bar>1000 - a\<bar> < 1 - 1 / 2 ^ 23" using r by simp
    from animate_updater_near [OF dom this]
    have b: "animate_updater (Num (Fin 1000)) (Num (Fin a)) = Fin 1000" .
    have "5 / 2 ^ 20 < (1000 + 5 / 2 ^ 20) * (19 / 20 :: rat) ^ 135"
      by (simp add: power_divide)
    with lo have "a < 1000" unfolding n by simp
    with a b step show ?thesis by simp
  qed
qed

text \<open>The accepted total changes to 500 at any moment of that run.\<close>

lemma retarget_500:
  "\<exists>a. frames n (Num (Fin 500)) (frames k (Num (Fin 1000)) (Fin 0)) = Fin a \<and> 0 \<le> a \<and> a \<le> 1000"
  "19001 \<le> m \<Longrightarrow> frames m (Num (Fin 500)) (frames k (Num (Fin 1000)) (Fin 0)) = Fin 500"
proof -
  obtain c where c: "frames k (Num (Fin 1000)) (Fin 0) = Fin c" and c0: "0 \<le> c" and c1: "c \<le> 1000"
    using frames_between [of 1000 0 k] by auto
  have dom: "\<bar>500 :: rat\<bar> < 2 ^ 30" "\<bar>c\<bar> < 2 ^ 30" using c0 c1 by simp_all
  obtain a where a: "frames n (Num (Fin 500)) (Fin c) = Fin a" and "min c 500 \<le> a" "a \<le> max c 500"
    using frames_between [OF dom, of n] by auto
  with c0 c1 have "0 \<le> a" "a \<le> 1000" by linarith+
  with a c show "\<exists>a. frames n (Num (Fin 500)) (frames k (Num (Fin 1000)) (Fin 0)) = Fin a \<and> 0 \<le> a \<and> a \<le> 1000"
    by simp
  assume m: "19001 \<le> m"
  have "\<bar>500 - c\<bar> \<le> 500" using c0 c1 by linarith
  then have "38 * \<bar>500 - c\<bar> \<le> 19000" by simp
  then have "\<lceil>38 * \<bar>500 - c\<bar>\<rceil> \<le> 19000" by (simp add: ceiling_le_iff)
  then have "nat \<lceil>38 * \<bar>500 - c\<bar>\<rceil> + 1 \<le> m" using m by linarith
  from frames_bounded [OF dom this]
  show "frames m (Num (Fin 500)) (frames k (Num (Fin 1000)) (Fin 0)) = Fin 500"
    by (simp only: c)
qed

text \<open>A step on values below \<open>2 ^ 30\<close>, in terms of the difference the code computes.\<close>

lemma animate_updater_step:
  assumes t: "\<bar>t\<bar> < 2 ^ 30" and c: "\<bar>c\<bar> < 2 ^ 30"
  shows "\<exists>d. num_sub (Fin t) (Fin c) = Fin d \<and> \<bar>d - (t - c)\<bar> \<le> 1 / 2 ^ 23 \<and>
     (\<bar>d\<bar> < 1 \<longrightarrow> animate_updater (Num (Fin t)) (Num (Fin c)) = Fin t) \<and>
     (1 \<le> \<bar>d\<bar> \<longrightarrow> (\<exists>a. animate_updater (Num (Fin t)) (Num (Fin c)) = Fin a \<and>
          \<bar>a - (c + (t - c) * (5 / 100))\<bar> \<le> 1 / 2 ^ 22 \<and> min c t < a \<and> a < max c t))"
proof -
  from diff_close [OF t c]
  obtain d where d: "num_sub (Fin t) (Fin c) = Fin d" and ed: "\<bar>d - (t - c)\<bar> \<le> 1 / 2 ^ 23"
    by blast
  have "animate_updater (Num (Fin t)) (Num (Fin c)) = Fin t" if "\<bar>d\<bar> < 1"
    using that by (simp only: animate_updater_Fin [OF d] if_True)
  moreover have "\<exists>a. animate_updater (Num (Fin t)) (Num (Fin c)) = Fin a \<and>
          \<bar>a - (c + (t - c) * (5 / 100))\<bar> \<le> 1 / 2 ^ 22 \<and> min c t < a \<and> a < max c t"
    if far: "1 \<le> \<bar>d\<bar>"
  proof -
    from animate_updater_move [OF t c d far]
    obtain a where a: "animate_updater (Num (Fin t)) (Num (Fin c)) = Fin a"
      and e: "\<bar>a - (c + (t - c) * (5 / 100))\<bar> \<le> 1 / 2 ^ 22" by blast
    have "1 - 1 / 2 ^ 23 \<le> \<bar>t - c\<bar>" using far ed by linarith
    from moved_between(1,2) [OF e this] a e show ?thesis by blast
  qed
  ultimately show ?thesis using d ed by blast
qed

text \<open>
  From \<open>2 ^ 52\<close> on the doubles are whole numbers. With the accepted total \<open>2 ^ 52\<close> and
  the displayed number \<open>2 ^ 52 + 2\<close> the difference is -2, its twentieth is about -0.1,
  and the sum rounds back to the displayed number.
\<close>

lemma stuck_diff: "num_sub (Fin 4503599627370496) (Fin 4503599627370498) = Fin (- 2)"
proof -
  have "round_double (of_int (- 2)) = Fin (of_int (- 2))"
    by (rule round_double_of_int) simp
  then show ?thesis by (simp add: num_sub_def)
qed

lemma stuck_product:
  "round_double (- 2 * (7205759403792794 / 2 ^ 57)) = Fin (- (7205759403792794 / 2 ^ 56))"
proof -
  have "round_double (- 2 * (7205759403792794 / 2 ^ 57)) = Fin (- 2 * (7205759403792794 / 2 ^ 57))"
    by (rule round_double_exact [where m = "- 7205759403792794" and k = "- 56"]) simp_all
  then show ?thesis by simp
qed

lemma stuck_sum:
  "round_double (4503599627370498 + - (7205759403792794 / 2 ^ 56)) = Fin 4503599627370498"
  by (rule round_double_eqI [where e = 52 and m = 4503599627370498]) simp_all

lemma stuck_step:
  "animate_updater (Num (Fin 4503599627370496)) (Num (Fin 4503599627370498)) =
     Fin 4503599627370498"
  by (simp only: animate_updater_Fin [OF stuck_diff] stuck_product num_add.simps stuck_sum) simp

text \<open>
  C8, as stated, fails. The accepted total is \<open>2 ^ 52\<close> and the displayed number
  \<open>2 ^ 52 + 2\<close>: the difference the code computes is -2, so the step does not snap,
  and the number it returns is the displayed number again; a million steps later the
  displayed number is still \<open>2 ^ 52 + 2\<close>.
\<close>

theorem animation_converges_counterexample:
  "num_sub (Fin 4503599627370496) (Fin 4503599627370498) = Fin (- 2) \<and>
   animate_updater (Num (Fin 4503599627370496)) (Num (Fin 4503599627370498)) =
     Fin 4503599627370498 \<and>
   frames 1000000 (Num (Fin 4503599627370496)) (Fin 4503599627370498) = Fin 4503599627370498"
  by (intro conjI stuck_diff stuck_step frames_fixed)

text \<open>
  C8, amended. A step on finite values returns the accepted total itself when the
  difference \<open>d\<close> the code computes has \<open>\<bar>d\<bar> < 1\<close>, and \<open>current + d * 0.05\<close> in double
  arithmetic otherwise. For an accepted total \<open>t\<close> and a displayed number \<open>c\<close> below
  \<open>2 ^ 30\<close> in magnitude, \<open>d\<close> is within \<open>2 ^ -23\<close> of \<open>t - c\<close>, and the step that does
  not snap returns a number within \<open>2 ^ -22\<close> of \<open>c + (t - c) * 0.05\<close>, strictly between
  the displayed number and the accepted total. Every displayed number of the run lies between the
  first one and the accepted total, and the accepted total is shown after at most
  \<open>\<lceil>38 * \<bar>t - c\<bar>\<rceil> + 1\<close> steps. From 0 with the accepted total 1000 the first 136
  steps each raise the displayed number and none passes 1000; from the 136th step on
  it is exactly 1000. When the accepted total changes to 500 after any number of steps
  towards 1000, every displayed number stays between 0 and 1000, and it is exactly 500
  after at most 19001 further steps.
\<close>

theorem animation_converges:
  "(num_sub (Fin t) (Fin c) = Fin d \<longrightarrow>
      animate_updater (Num (Fin t)) (Num (Fin c)) =
        (if \<bar>d\<bar> < 1 then Fin t
         else num_add (Fin c) (num_mul (Fin d) (literal (5 / 100))))) \<and>
   (\<bar>t\<bar> < 2 ^ 30 \<and> \<bar>c\<bar> < 2 ^ 30 \<longrightarrow>
      (\<exists>d. num_sub (Fin t) (Fin c) = Fin d \<and> \<bar>d - (t - c)\<bar> \<le> 1 / 2 ^ 23 \<and>
         (\<bar>d\<bar> < 1 \<longrightarrow> animate_updater (Num (Fin t)) (Num (Fin c)) = Fin t) \<and>
         (1 \<le> \<bar>d\<bar> \<longrightarrow> (\<exists>a. animate_updater (Num (Fin t)) (Num (Fin c)) = Fin a \<and>
              \<bar>a - (c + (t - c) * (5 / 100))\<bar> \<le> 1 / 2 ^ 22 \<and> min c t < a \<and> a < max c t))) \<and>
      (\<forall>n. \<exists>a. frames n (Num (Fin t)) (Fin c) = Fin a \<and> min c t \<le> a \<and> a \<le> max c t) \<and>
      (\<forall>n \<ge> nat \<lceil>38 * \<bar>t - c\<bar>\<rceil> + 1. frames n (Num (Fin t)) (Fin c) = Fin t)) \<and>
   (\<forall>n < 136. \<exists>a b. frames n (Num (Fin 1000)) (Fin 0) = Fin a \<and>
       frames (Suc n) (Num (Fin 1000)) (Fin 0) = Fin b \<and> a < b \<and> b \<le> 1000) \<and>
   (\<forall>n \<ge> 136. frames n (Num (Fin 1000)) (Fin 0) = Fin 1000) \<and>
   (\<forall>k n. \<exists>a. frames n (Num (Fin 500)) (frames k (Num (Fin 1000)) (Fin 0)) = Fin a \<and>
       0 \<le> a \<and> a \<le> 1000) \<and>
   (\<forall>k. \<forall>n \<ge> 19001. frames n (Num (Fin 500)) (frames k (Num (Fin 1000)) (Fin 0)) = Fin 500)"
proof (intro conjI impI allI)
  assume "num_sub (Fin t) (Fin c) = Fin d"
  then show "animate_updater (Num (Fin t)) (Num (Fin c)) =
        (if \<bar>d\<bar> < 1 then Fin t
         else num_add (Fin c) (num_mul (Fin d) (literal (5 / 100))))"
    by (simp only: animate_updater_def number_or_zero_Fin Let_def Math_abs.simps num_lt.simps)
next
  assume "\<bar>t\<bar> < 2 ^ 30 \<and> \<bar>c\<bar> < 2 ^ 30"
  then show "\<exists>d. num_sub (Fin t) (Fin c) = Fin d \<and> \<bar>d - (t - c)\<bar> \<le> 1 / 2 ^ 23 \<and>
         (\<bar>d\<bar> < 1 \<longrightarrow> animate_updater (Num (Fin t)) (Num (Fin c)) = Fin t) \<and>
         (1 \<le> \<bar>d\<bar> \<longrightarrow> (\<exists>a. animate_updater (Num (Fin t)) (Num (Fin c)) = Fin a \<and>
              \<bar>a - (c + (t - c) * (5 / 100))\<bar> \<le> 1 / 2 ^ 22 \<and> min c t < a \<and> a < max c t))"
    by (intro animate_updater_step) simp_all
next
  fix n
  assume "\<bar>t\<bar> < 2 ^ 30 \<and> \<bar>c\<bar> < 2 ^ 30"
  then show "\<exists>a. frames n (Num (Fin t)) (Fin c) = Fin a \<and> min c t \<le> a \<and> a \<le> max c t"
    by (intro frames_between) simp_all
next
  fix n
  assume "\<bar>t\<bar> < 2 ^ 30 \<and> \<bar>c\<bar> < 2 ^ 30" and "nat \<lceil>38 * \<bar>t - c\<bar>\<rceil> + 1 \<le> n"
  then show "frames n (Num (Fin t)) (Fin c) = Fin t"
    by (intro frames_bounded) simp_all
qed (rule frames_1000_increasing frames_1000_reached retarget_500; assumption)+

text \<open>
  From 700 towards 500 the difference is -200 and the step gives 690; from 499.5 the
  difference is 0.5 and the step gives 500; 7601
  steps take 700 to 500; the first step from 0 towards 1000 raises the number, step
  136 shows 1000, and 19001 steps take the number shown after 10 steps towards 1000
  to 500.
\<close>

theorem animation_converges_witness:
  "\<bar>500 :: rat\<bar> < 2 ^ 30 \<and> \<bar>700 :: rat\<bar> < 2 ^ 30 \<and> \<bar>999 / 2 :: rat\<bar> < 2 ^ 30 \<and>
   num_sub (Fin 500) (Fin 700) = Fin (- 200) \<and> (1 :: rat) \<le> \<bar>- 200\<bar> \<and>
   animate_updater (Num (Fin 500)) (Num (Fin 700)) = Fin 690 \<and>
   (\<exists>a. animate_updater (Num (Fin 500)) (Num (Fin 700)) = Fin a \<and>
        \<bar>a - 690\<bar> \<le> 1 / 2 ^ 22 \<and> 500 < a \<and> a < 700) \<and>
   num_sub (Fin 500) (Fin (999 / 2)) = Fin (1 / 2) \<and> \<bar>1 / 2 :: rat\<bar> < 1 \<and>
   animate_updater (Num (Fin 500)) (Num (Fin (999 / 2))) = Fin 500 \<and>
   (\<exists>a. frames 5 (Num (Fin 500)) (Fin 700) = Fin a \<and> 500 \<le> a \<and> a \<le> 700) \<and>
   nat \<lceil>38 * \<bar>500 - 700 :: rat\<bar>\<rceil> + 1 \<le> 7601 \<and>
   frames 7601 (Num (Fin 500)) (Fin 700) = Fin 500 \<and>
   (0 :: nat) < 136 \<and>
   (\<exists>a b. frames 0 (Num (Fin 1000)) (Fin 0) = Fin a \<and>
      frames (Suc 0) (Num (Fin 1000)) (Fin 0) = Fin b \<and> a < b \<and> b \<le> 1000) \<and>
   (136 :: nat) \<le> 136 \<and> frames 136 (Num (Fin 1000)) (Fin 0) = Fin 1000 \<and>
   (19001 :: nat) \<le> 19001 \<and>
   frames 19001 (Num (Fin 500)) (frames 10 (Num (Fin 1000)) (Fin 0)) = Fin 500"
proof -
  have dom: "\<bar>500 :: rat\<bar> < 2 ^ 30 \<and> \<bar>700 :: rat\<bar> < 2 ^ 30"
    and dom': "\<bar>500 :: rat\<bar> < 2 ^ 30 \<and> \<bar>999 / 2 :: rat\<bar> < 2 ^ 30"
    by simp_all
  note far = animation_converges [of 500 700, THEN conjunct2, THEN conjunct1, THEN mp, OF dom]
  note near = animation_converges [of 500 "999 / 2", THEN conjunct2, THEN conjunct1, THEN mp, OF dom']
  note run = animation_converges [of 500 700, THEN conjunct2, THEN conjunct2]
  have "round_double (of_int (- 200)) = Fin (of_int (- 200))"
    by (rule round_double_of_int) simp
  then have d1: "num_sub (Fin 500) (Fin 700) = Fin (- 200)"
    by (simp add: num_sub_def)
  have "round_double (1 / 2) = Fin (1 / 2)"
    by (rule round_double_exact [where m = 1 and k = "- 1"]) simp_all
  then have d2: "num_sub (Fin 500) (Fin (999 / 2)) = Fin (1 / 2)"
    by (simp add: num_sub_def)
  have "round_double (- 200 * (7205759403792794 / 2 ^ 57)) = Fin (- 10)"
    by (rule round_double_eqI [where e = 3 and m = "- 5629499534213120"]) simp_all
  moreover have "round_double (of_int 690) = Fin (of_int 690)"
    by (rule round_double_of_int) simp
  ultimately have "(if \<bar>- 200 :: rat\<bar> < 1 then Fin 500
      else num_add (Fin 700) (num_mul (Fin (- 200)) (literal (5 / 100)))) = Fin 690"
    by (simp only: num_mul_Fin_literal) simp
  with animation_converges [of 500 700 "- 200", THEN conjunct1, THEN mp, OF d1]
  have 0: "animate_updater (Num (Fin 500)) (Num (Fin 700)) = Fin 690"
    by (simp only:)
  have m: "(1 :: rat) \<le> \<bar>- 200\<bar>" and s: "\<bar>1 / 2 :: rat\<bar> < 1"
    and b: "nat \<lceil>38 * \<bar>500 - 700 :: rat\<bar>\<rceil> + 1 \<le> 7601"
    by simp_all
  from far [THEN conjunct1] d1 m
  have "\<exists>a. animate_updater (Num (Fin 500)) (Num (Fin 700)) = Fin a \<and>
        \<bar>a - (700 + (500 - 700) * (5 / 100))\<bar> \<le> 1 / 2 ^ 22 \<and> min 700 500 < a \<and> a < max 700 500"
    by auto
  then have 1: "\<exists>a. animate_updater (Num (Fin 500)) (Num (Fin 700)) = Fin a \<and>
        \<bar>a - 690\<bar> \<le> 1 / 2 ^ 22 \<and> 500 < a \<and> a < 700"
    by simp
  from near [THEN conjunct1] d2 s
  have 2: "animate_updater (Num (Fin 500)) (Num (Fin (999 / 2))) = Fin 500"
    by auto
  from far [THEN conjunct2, THEN conjunct1, rule_format, of 5]
  have 3: "\<exists>a. frames 5 (Num (Fin 500)) (Fin 700) = Fin a \<and> 500 \<le> a \<and> a \<le> 700"
    by simp
  from far [THEN conjunct2, THEN conjunct2, rule_format, OF b]
  have 4: "frames 7601 (Num (Fin 500)) (Fin 700) = Fin 500" .
  from run [THEN conjunct1, rule_format, of 0]
  have 5: "\<exists>a b. frames 0 (Num (Fin 1000)) (Fin 0) = Fin a \<and>
      frames (Suc 0) (Num (Fin 1000)) (Fin 0) = Fin b \<and> a < b \<and> b \<le> 1000" by simp
  from run [THEN conjunct2, THEN conjunct1, rule_format, of 136]
  have 6: "frames 136 (Num (Fin 1000)) (Fin 0) = Fin 1000" by simp
  from run [THEN conjunct2, THEN conjunct2, THEN conjunct2, rule_format, of 19001 10]
  have 7: "frames 19001 (Num (Fin 500)) (frames 10 (Num (Fin 1000)) (Fin 0)) = Fin 500" by simp
  have 8: "\<bar>999 / 2 :: rat\<bar> < 2 ^ 30" by simp
  from dom 8 d1 m 0 1 d2 s 2 3 b 4 5 6 7 show ?thesis
    by (simp only: simp_thms order_refl zero_less_numeral)
qed

text \<open>
  The guards of the updater put zero in the place of a value that is not a number or is
  NaN. On finite values the step is never NaN, and below \<open>2 ^ 30\<close> it is finite.
\<close>

lemma number_or_zero_substitutes:
  "\<not> is_number v \<or> v = Num NaN \<Longrightarrow> number_or_zero v = Fin 0"
  by (cases v) (auto simp: number_or_zero_def isNaN_def)

lemma number_or_zero_not_NaN: "number_or_zero v \<noteq> NaN"
  by (cases v) (auto simp: number_or_zero_def isNaN_def)

lemma animate_updater_not_NaN:
  assumes "number_or_zero totalActive_v = Fin t" and "number_or_zero prev = Fin c"
  shows "animate_updater totalActive_v prev \<noteq> NaN"
proof -
  let ?k = "7205759403792794 / 2 ^ 57 :: rat"
  have u: "animate_updater totalActive_v prev =
      (if num_lt (Math_abs (round_double (t + - c))) (Fin 1) then Fin t
       else num_add (Fin c) (num_mul (round_double (t + - c)) (Fin ?k)))"
    by (simp only: animate_updater_def assms Let_def num_sub_def num_neg.simps num_add.simps
        literal_values)
  show ?thesis
  proof (cases "round_double (t + - c)")
    case (Fin d)
    then show ?thesis
      using round_double_not_NaN [of "c + d * ?k"]
      by (cases "round_double (d * ?k)") (simp_all add: u round_double_not_NaN)
  next
    case PInf
    then show ?thesis by (simp add: u)
  next
    case NInf
    then show ?thesis by (simp add: u)
  next
    case NaN
    then show ?thesis by (simp add: round_double_not_NaN)
  qed
qed

lemma animate_updater_finite:
  assumes "number_or_zero totalActive_v = Fin t" and "number_or_zero prev = Fin c"
    and "\<bar>t\<bar> < 2 ^ 30" and "\<bar>c\<bar> < 2 ^ 30"
  shows "\<exists>a. animate_updater totalActive_v prev = Fin a"
proof -
  have "animate_updater totalActive_v prev = animate_updater (Num (Fin t)) (Num (Fin c))"
    by (simp only: animate_updater_def assms(1,2) number_or_zero_Fin)
  with animate_updater_cases [OF assms(3,4)] show ?thesis by metis
qed

lemma animate_updater_PInf:
  "animate_updater (Num PInf) (Num PInf) = NaN"
  "animate_updater (Num NInf) (Num NInf) = NaN"
  "animate_updater (Num PInf) (Num (Fin 0)) = PInf"
  unfolding animate_updater_def literal_values
  by (simp_all add: number_or_zero_def isNaN_def num_sub_def)

text \<open>
  The difference of the largest power of two and its negative is beyond the largest
  double: the step returns \<open>Infinity\<close>.
\<close>

lemma animate_updater_overflow:
  "animate_updater (Num (Fin (2 ^ 1023))) (Num (Fin (- (2 ^ 1023)))) = PInf"
proof -
  have "round_double (2 ^ 1023 + - (- (2 ^ 1023))) = PInf"
    by (rule round_double_overflow) simp
  then have "num_sub (Fin (2 ^ 1023)) (Fin (- (2 ^ 1023))) = PInf"
    by (simp only: num_sub_def num_neg.simps num_add.simps)
  then show ?thesis
    unfolding animate_updater_def literal_values
    by (simp add: number_or_zero_def isNaN_def)
qed

text \<open>
  C9. The code at an input where the claim fails. \<open>Infinity\<close> is a number and not NaN,
  so the guards of the updater let it pass: with the accepted total and the displayed
  number both \<open>Infinity\<close> the difference is NaN and so is the number the step returns.
  The state is reached from the start: an incoming total \<open>Infinity\<close> is accepted as it
  is when the accepted total is 0, the first step from 0 then shows \<open>Infinity\<close> and
  the second shows NaN.
\<close>

theorem animate_updater_infinite:
  "animate_updater (Num PInf) (Num PInf) = NaN \<and>
   animate_updater (Num NInf) (Num NInf) = NaN \<and>
   checkAndRunUpdate example_parse (tick_at 1000 (reply_ok payload_overflow)) fresh_local_client =
     Inr (fresh_local_client\<lparr> totalActive := PInf, trend := Str (js ''up''),
            headlines := Arr [Str (js ''C'')], lastUpdated := Some (Fin 3000),
            apiStatus := ''success'', sourceCalls := 1 \<rparr>) \<and>
   displayNumber (animate (fresh_local_client\<lparr> totalActive := PInf \<rparr>)) = PInf \<and>
   displayNumber (animate (animate (fresh_local_client\<lparr> totalActive := PInf \<rparr>))) = NaN \<and>
   frames 1 (Num PInf) (Fin 0) = PInf \<and>
   frames 2 (Num PInf) (Fin 0) = NaN"
  by (simp add: animate_def animate_updater_PInf
      stabilizedTotal_def num_gt_def numeral_2_eq_2 tick_eval fresh_local_client_def
      needsUpdate_def)

section \<open>The accepted total\<close>

text \<open>
  C7. The code at an input where the claim fails. A client that has just started holds
  the accepted total 0; the estimate source answers with a text whose total is -5.
  In local mode the tick writes -5 into the view state; in shared mode it stores -5
  in the document, and the snapshot the store delivers puts -5 into the view state.
\<close>

theorem negative_total_accepted:
  "totalActive fresh_local_client = Fin 0 \<and>
   checkAndRunUpdate example_parse (tick_at 1000 (reply_ok payload_negative)) fresh_local_client =
     Inr (fresh_local_client\<lparr> totalActive := Fin (- 5), trend := Str (js ''down''),
            headlines := Arr [Str (js ''B'')], lastUpdated := Some (Fin 3000),
            apiStatus := ''success'', sourceCalls := 1 \<rparr>) \<and>
   checkAndRunUpdate example_parse (tick_at 1000 (reply_ok payload_negative)) fresh_shared_client =
     Inr (fresh_shared_client\<lparr> apiStatus := ''loading'', sourceCalls := 1,
            db := Some (Some \<lparr> doc_total = Num (Fin (- 5)), doc_trend = Str (js ''down''),
                               doc_headlines = Arr [Str (js ''B'')], doc_timestamp = Some (Fin 3000),
                               doc_updatedBy = js ''uid-1'' \<rparr>) \<rparr>) \<and>
   totalActive (deliver (fresh_shared_client\<lparr> apiStatus := ''loading'', sourceCalls := 1,
            db := Some (Some \<lparr> doc_total = Num (Fin (- 5)), doc_trend = Str (js ''down''),
                               doc_headlines = Arr [Str (js ''B'')], doc_timestamp = Some (Fin 3000),
                               doc_updatedBy = js ''uid-1'' \<rparr>) \<rparr>)) = Fin (- 5)"
  by (simp add: tick_eval fresh_local_client_def fresh_shared_client_def needsUpdate_def
      stabilizedTotal_def num_gt_def deliver_def onSnapshot_def validTotal_def
      number_or_zero_def isNaN_def)

end
